theory Spec2Isabelle
  imports Main "HOL-Library.Char_ord" "HOL-Library.List_Lexorder" "HOL-Library.Product_Lexorder"
    "HOL-Library.Multiset"
begin

section \<open>Text primitives of the Python runtime\<close>


definition is_space :: "char \<Rightarrow> bool" where
  "is_space c = (c \<in> set [CHR 0x09, CHR 0x0A, CHR 0x0B, CHR 0x0C, CHR 0x0D,
                            CHR 0x1C, CHR 0x1D, CHR 0x1E, CHR 0x1F, CHR 0x20])"

definition is_digit :: "char \<Rightarrow> bool" where
  "is_digit c = (c \<in> set ''0123456789'')"

definition upper_char :: "char \<Rightarrow> char" where
  "upper_char c =
     (case map_of (zip ''abcdefghijklmnopqrstuvwxyz'' ''ABCDEFGHIJKLMNOPQRSTUVWXYZ'') c of
        Some u \<Rightarrow> u
      | None \<Rightarrow> c)"

definition upper :: "string \<Rightarrow> string" where
  "upper s = map upper_char s"

definition strip :: "string \<Rightarrow> string" where
  "strip s = rev (dropWhile is_space (rev (dropWhile is_space s)))"

text \<open>\<^verbatim>\<open>re.sub(r"\s+", " ", s)\<close>: every maximal run of blanks becomes one space.\<close>

function collapse_ws :: "string \<Rightarrow> string" where
  "collapse_ws [] = []"
| "collapse_ws (c # cs) =
     (if is_space c then CHR '' '' # collapse_ws (dropWhile is_space cs)
      else c # collapse_ws cs)"
  by pat_completeness auto
termination
  by (relation "measure length") (auto simp: less_Suc_eq_le length_dropWhile_le)

text \<open>\<^verbatim>\<open>str(n)\<close> and \<^verbatim>\<open>int(digits)\<close> for decimal numerals.\<close>

definition digit_char :: "nat \<Rightarrow> char" where
  "digit_char d = ''0123456789'' ! d"

fun str_nat :: "nat \<Rightarrow> string" where
  "str_nat n = (if n < 10 then [digit_char n] else str_nat (n div 10) @ [digit_char (n mod 10)])"

declare str_nat.simps [simp del]

definition str_int :: "int \<Rightarrow> string" where
  "str_int i = (if i < 0 then CHR ''-'' # str_nat (nat (- i)) else str_nat (nat i))"

definition digit_val :: "char \<Rightarrow> int" where
  "digit_val c =
     (case map_of (zip ''0123456789'' [0, 1, 2, 3, 4, 5, 6, 7, 8, 9]) c of
        Some v \<Rightarrow> v
      | None \<Rightarrow> 0)"

definition int_of_digits :: "string \<Rightarrow> int" where
  "int_of_digits ds = foldl (\<lambda>a c. 10 * a + digit_val c) 0 ds"

text \<open>
  \<^verbatim>\<open>int(ds)\<close> on a text of digits: the interpreter refuses a text of more than 4300 digits
  with \<^verbatim>\<open>ValueError\<close> (its default limit on the conversion of integers).
\<close>

definition int_max_str_digits :: nat where
  "int_max_str_digits = 4300"

text \<open>\<^verbatim>\<open>sep.join(xs)\<close>.\<close>

fun join :: "string \<Rightarrow> string list \<Rightarrow> string" where
  "join sep [] = []"
| "join sep [x] = x"
| "join sep (x # y # ys) = x @ sep @ join sep (y # ys)"

section \<open>Cells and tables\<close>

text \<open>
  A cell of a pandas table: Python's \<^verbatim>\<open>None\<close>, the missing value \<^verbatim>\<open>NaN\<close>, an integer
  or a text. Fractional numbers are outside the model.
\<close>

datatype cell = PyNone | NaN | Num int | Str string

datatype py_error = TypeError | KeyError | ValueError

definition py_int :: "string \<Rightarrow> py_error + int" where
  "py_int ds = (if length ds > int_max_str_digits then Inl ValueError else Inr (int_of_digits ds))"

text \<open>\<^verbatim>\<open>str(x)\<close> of a cell.\<close>

fun str_cell :: "cell \<Rightarrow> string" where
  "str_cell PyNone = ''None''"
| "str_cell NaN = ''nan''"
| "str_cell (Num n) = str_int n"
| "str_cell (Str s) = s"

text \<open>\<^verbatim>\<open>pd.notna(x)\<close>.\<close>

fun notna :: "cell \<Rightarrow> bool" where
  "notna PyNone = False"
| "notna NaN = False"
| "notna _ = True"

section \<open>Helpers of the application\<close>

text \<open>\<^verbatim>\<open>normalize_addr\<close> (app.py, lines 88 to 93).\<close>

fun normalize_addr :: "cell \<Rightarrow> string" where
  "normalize_addr PyNone = ''''"
| "normalize_addr addr = collapse_ws (strip (str_cell addr))"

section \<open>The run compressor\<close>

text \<open>
  A table of aggregated rows (\<^verbatim>\<open>out_df\<close>) is the list of its rows: the cell of column
  \<^verbatim>\<open>Year(s)\<close> and the text of column \<^verbatim>\<open>Occupant Listed\<close>.
\<close>

type_synonym out_df = "(cell \<times> string) list"

text \<open>
  Python's \<^verbatim>\<open>==\<close> on cells (\<^verbatim>\<open>NaN\<close> equals nothing, itself included) and
  \<^verbatim>\<open>x + 1\<close>, which raises \<^verbatim>\<open>TypeError\<close> on a text and on \<^verbatim>\<open>None\<close>.
\<close>

fun py_eq :: "cell \<Rightarrow> cell \<Rightarrow> bool" where
  "py_eq PyNone PyNone = True"
| "py_eq (Num a) (Num b) = (a = b)"
| "py_eq (Str a) (Str b) = (a = b)"
| "py_eq _ _ = False"

fun py_succ :: "cell \<Rightarrow> py_error + cell" where
  "py_succ (Num n) = Inr (Num (n + 1))"
| "py_succ NaN = Inr NaN"
| "py_succ (Str s) = Inl TypeError"
| "py_succ PyNone = Inl TypeError"

text \<open>The label of a finished run (app.py, lines 358 and 364).\<close>

definition run_label :: "cell \<Rightarrow> cell \<Rightarrow> string" where
  "run_label start_y prev_y =
     (if \<not> py_eq start_y prev_y then str_cell start_y @ ''-'' @ str_cell prev_y
      else str_cell start_y)"

text \<open>
  The loop of \<^verbatim>\<open>compress_year_runs\<close> (lines 351 to 362) over the remaining rows, with its
  variables \<^verbatim>\<open>start_y\<close>, \<^verbatim>\<open>prev_y\<close>, \<^verbatim>\<open>prev_occ\<close> and \<^verbatim>\<open>rows\<close>; the last equation is
  the code after the loop (lines 364 to 366).
\<close>

fun compress_loop ::
  "cell \<Rightarrow> cell \<Rightarrow> string \<Rightarrow> out_df \<Rightarrow> (string \<times> string) list
     \<Rightarrow> py_error + (string \<times> string) list" where
  "compress_loop start_y prev_y prev_occ [] rows =
     Inr (rows @ [(run_label start_y prev_y, prev_occ)])"
| "compress_loop start_y prev_y prev_occ ((y, occ) # rest) rows =
     (case py_succ prev_y of
        Inl e \<Rightarrow> Inl e
      | Inr nxt \<Rightarrow>
          if py_eq y nxt \<and> occ = prev_occ
          then compress_loop start_y y prev_occ rest rows
          else compress_loop y y occ rest (rows @ [(run_label start_y prev_y, prev_occ)]))"

text \<open>
  \<^verbatim>\<open>compress_year_runs\<close> (lines 326 to 366). In the branch of line 344 every year cell
  has the text \<^verbatim>\<open>N/A\<close>, so the cell returned there is that text.
\<close>

definition compress_year_runs :: "out_df \<Rightarrow> py_error + (string \<times> string) list" where
  "compress_year_runs out_df =
     (case out_df of
        [] \<Rightarrow> Inr []
      | (y0, occ0) # rest \<Rightarrow>
          if list_all (\<lambda>(y, occ). str_cell y = ''N/A'') out_df
          then Inr (map (\<lambda>(y, occ). (str_cell y, occ)) out_df)
          else compress_loop y0 y0 occ0 rest [])"

subsection \<open>The compressor's contract, in the specification's words\<close>

text \<open>
  Two adjacent rows continue one run when the second year is the first plus one and the
  occupant texts are identical.
\<close>

definition continues :: "int \<times> string \<Rightarrow> int \<times> string \<Rightarrow> bool" where
  "continues r r' = (fst r' = fst r + 1 \<and> snd r' = snd r)"

fun is_run :: "(int \<times> string) list \<Rightarrow> bool" where
  "is_run [] = False"
| "is_run [r] = True"
| "is_run (r # r' # rs) = (continues r r' \<and> is_run (r' # rs))"

text \<open>No run can be extended by the first row of the next one.\<close>

fun maximal_runs :: "(int \<times> string) list list \<Rightarrow> bool" where
  "maximal_runs (g # h # gs) = (\<not> continues (last g) (hd h) \<and> maximal_runs (h # gs))"
| "maximal_runs _ = True"

text \<open>The rows cut into their maximal runs, in order.\<close>

fun runs_from :: "(int \<times> string) list \<Rightarrow> (int \<times> string) list \<Rightarrow> (int \<times> string) list list" where
  "runs_from cur [] = [cur]"
| "runs_from cur (r # rs) =
     (if continues (last cur) r then runs_from (cur @ [r]) rs else cur # runs_from [r] rs)"

fun spec_year_runs :: "(int \<times> string) list \<Rightarrow> (int \<times> string) list list" where
  "spec_year_runs [] = []"
| "spec_year_runs (r # rs) = runs_from [r] rs"

text \<open>The output row of a run: \<^verbatim>\<open>startYear\<close> for one year, \<^verbatim>\<open>startYear-endYear\<close> otherwise.\<close>

definition spec_run_row :: "(int \<times> string) list \<Rightarrow> string \<times> string" where
  "spec_run_row g =
     (if length g = 1 then str_int (fst (hd g))
      else str_int (fst (hd g)) @ ''-'' @ str_int (fst (last g)),
      snd (hd g))"

definition year_rows :: "(int \<times> string) list \<Rightarrow> out_df" where
  "year_rows rs = map (\<lambda>(y, occ). (Num y, occ)) rs"

subsection \<open>Shapes of normalised text\<close>

text \<open>Every blank is a single space that is followed by a character that is not blank.\<close>

fun ws_normal :: "string \<Rightarrow> bool" where
  "ws_normal [] = True"
| "ws_normal (c # cs) =
     ((is_space c \<longrightarrow> c = CHR '' '' \<and> (case cs of [] \<Rightarrow> True | d # _ \<Rightarrow> \<not> is_space d))
      \<and> ws_normal cs)"

text \<open>No blank at either end.\<close>

definition trimmed :: "string \<Rightarrow> bool" where
  "trimmed s = (s = [] \<or> (\<not> is_space (hd s) \<and> \<not> is_space (last s)))"

section \<open>The address key parser\<close>

text \<open>
  The regular expressions of \<^verbatim>\<open>parse_address_for_sort\<close> (app.py, lines 95 to 128). The
  classes \<^verbatim>\<open>\s\<close>, \<^verbatim>\<open>\d\<close> and the character \<^verbatim>\<open>#\<close> are pairwise disjoint, so the greedy
  repetitions never give characters back and each match is the one computed here.
\<close>

text \<open>Group 1 of \<^verbatim>\<open>re.match(r"^\s*(\d+)", s)\<close>.\<close>

definition match_house :: "string \<Rightarrow> string option" where
  "match_house s =
     (let ds = takeWhile is_digit (dropWhile is_space s)
      in if ds = [] then None else Some ds)"

text \<open>Group 1 of \<^verbatim>\<open>#\s*(\d+)\<close> matched at the very start of \<open>s\<close>.\<close>

definition unit_at :: "string \<Rightarrow> string option" where
  "unit_at s =
     (case s of
        [] \<Rightarrow> None
      | c # cs \<Rightarrow>
          if c = CHR ''#''
          then (let ds = takeWhile is_digit (dropWhile is_space cs)
                in if ds = [] then None else Some ds)
          else None)"

text \<open>Group 1 of \<^verbatim>\<open>re.search(r"#\s*(\d+)", s)\<close>: the leftmost position that matches.\<close>

fun search_unit :: "string \<Rightarrow> string option" where
  "search_unit [] = None"
| "search_unit (c # cs) =
     (case unit_at (c # cs) of Some ds \<Rightarrow> Some ds | None \<Rightarrow> search_unit cs)"

text \<open>\<^verbatim>\<open>re.sub(r"^\s*\d+\s*", "", s)\<close>.\<close>

definition strip_house :: "string \<Rightarrow> string" where
  "strip_house s =
     (let t = dropWhile is_space s
      in if takeWhile is_digit t = [] then s
         else dropWhile is_space (dropWhile is_digit t))"

text \<open>
  What follows a match of \<^verbatim>\<open>\s*#\s*\d+\s*\<close> that begins at the very start of \<open>s\<close>, if there
  is one.
\<close>

definition unit_marker_at :: "string \<Rightarrow> string option" where
  "unit_marker_at s =
     (case dropWhile is_space s of
        [] \<Rightarrow> None
      | c # cs \<Rightarrow>
          if c = CHR ''#''
          then (let t = dropWhile is_space cs
                in if takeWhile is_digit t = [] then None
                   else Some (dropWhile is_space (dropWhile is_digit t)))
          else None)"

text \<open>\<^verbatim>\<open>re.sub(r"\s*#\s*\d+\s*", " ", s)\<close>: every match, from left to right, becomes one space.\<close>

function remove_units :: "string \<Rightarrow> string" where
  "remove_units [] = []"
| "remove_units (c # cs) =
     (case unit_marker_at (c # cs) of
        Some r \<Rightarrow> CHR '' '' # remove_units r
      | None \<Rightarrow> c # remove_units cs)"
  by pat_completeness auto
termination
proof (relation "measure length", goal_cases)
  case 1
  show ?case by simp
next
  case (2 c cs)
  show ?case by simp
next
  case (3 c cs r)
  then obtain ds where d: "dropWhile is_space (c # cs) = CHR ''#'' # ds"
    and r: "r = dropWhile is_space (dropWhile is_digit (dropWhile is_space ds))"
    by (auto simp: unit_marker_at_def Let_def split: list.splits if_splits)
  have "length r \<le> length ds"
    unfolding r by (meson length_dropWhile_le order_trans)
  also have "\<dots> < length (CHR ''#'' # ds)" by simp
  also have "\<dots> = length (dropWhile is_space (c # cs))" by (simp only: d)
  also have "\<dots> \<le> length (c # cs)" by (rule length_dropWhile_le)
  finally show ?case by simp
qed

text \<open>\<^verbatim>\<open>parse_address_for_sort\<close> (lines 95 to 128).\<close>

type_synonym sort_key = "string \<times> int \<times> int \<times> string"

definition parse_address_for_sort :: "cell \<Rightarrow> py_error + sort_key" where
  "parse_address_for_sort addr =
     (case addr of
        PyNone \<Rightarrow> Inr ('''', 0, 0, '''')
      | _ \<Rightarrow>
         (let a = normalize_addr (Str (str_cell addr));
              a_up = upper a
          in case (case match_house a_up of Some ds \<Rightarrow> py_int ds | None \<Rightarrow> Inr 0) of
               Inl e \<Rightarrow> Inl e
             | Inr house \<Rightarrow>
                (case (case search_unit a_up of Some ds \<Rightarrow> py_int ds | None \<Rightarrow> Inr 0) of
                   Inl e \<Rightarrow> Inl e
                 | Inr unit \<Rightarrow>
                    (let rest = strip_house a_up;
                         rest = remove_units rest;
                         street = strip (collapse_ws rest)
                     in Inr (street, house, unit, a_up)))))"

section \<open>Tables\<close>

text \<open>
  A pandas table is the list of its columns, each a label with its cells; the labels of a
  table are taken to be pairwise distinct, as the readers of pandas make them.
  \<open>column\<close> is \<^verbatim>\<open>df[name]\<close> where the label may be missing, \<open>col_values\<close> the same for a label
  taken from the table itself, \<open>set_column\<close> is the assignment \<^verbatim>\<open>df[name] = values\<close> and
  \<open>select_rows\<close> is \<^verbatim>\<open>df[mask]\<close>.
\<close>

type_synonym frame = "(string \<times> cell list) list"

definition column :: "frame \<Rightarrow> string \<Rightarrow> cell list option" where
  "column df name = map_of df name"

definition col_values :: "frame \<Rightarrow> string \<Rightarrow> cell list" where
  "col_values df name = (case map_of df name of Some vs \<Rightarrow> vs | None \<Rightarrow> [])"

definition set_column :: "string \<Rightarrow> cell list \<Rightarrow> frame \<Rightarrow> frame" where
  "set_column name vs df =
     (if name \<in> set (map fst df)
      then map (\<lambda>(n, c). if n = name then (n, vs) else (n, c)) df
      else df @ [(name, vs)])"

definition select_rows :: "bool list \<Rightarrow> frame \<Rightarrow> frame" where
  "select_rows keep df = map (\<lambda>(n, c). (n, map snd (filter fst (zip keep c)))) df"

text \<open>\<^verbatim>\<open>Series.drop_duplicates()\<close> and \<^verbatim>\<open>Series.unique()\<close>: the first occurrence stays.\<close>

function drop_duplicates :: "'a list \<Rightarrow> 'a list" where
  "drop_duplicates [] = []"
| "drop_duplicates (x # xs) = x # drop_duplicates (filter (\<lambda>y. y \<noteq> x) xs)"
  by pat_completeness auto
termination
  by (relation "measure length") (auto simp: less_Suc_eq_le)

text \<open>\<^verbatim>\<open>Series.ffill()\<close>: a missing cell takes the last cell before it that is not missing.\<close>

fun ffill_from :: "cell option \<Rightarrow> cell list \<Rightarrow> cell list" where
  "ffill_from prev [] = []"
| "ffill_from prev (c # cs) =
     (if notna c then c # ffill_from (Some c) cs
      else (case prev of None \<Rightarrow> c | Some v \<Rightarrow> v) # ffill_from prev cs)"

definition ffill :: "cell list \<Rightarrow> cell list" where
  "ffill cs = ffill_from None cs"

section \<open>The schema normaliser\<close>

text \<open>The dictionary \<^verbatim>\<open>cols_upper\<close> (line 138): of two labels with one upper-case form the later wins.\<close>

definition cols_upper :: "frame \<Rightarrow> string \<Rightarrow> string option" where
  "cols_upper df = map_of (rev (map (\<lambda>(col, vs). (upper col, col)) df))"

definition check_mark :: string where
  "check_mark = [CHR 0xE2, CHR 0x9C, CHR 0x93]"

definition address_patterns :: "string list" where
  "address_patterns =
     [''STREET ADDRESS'', ''STREET_ADDRESS'', ''PROPERTY ADDRESS'',
      ''PROPERTY_ADDRESS'', ''SITE ADDRESS'', ''LOCATION'', ''STREET'', ''ADDR'']"

text \<open>\<^verbatim>\<open>df[col].apply(normalize_addr)\<close>.\<close>

definition normalized_series :: "frame \<Rightarrow> string \<Rightarrow> cell list" where
  "normalized_series df col = map (\<lambda>c. Str (normalize_addr c)) (col_values df col)"

text \<open>The inner function \<^verbatim>\<open>combine_addresses\<close> (lines 150 to 156) on the two cells of a row.\<close>

definition combine_addresses :: "cell \<Rightarrow> cell \<Rightarrow> string" where
  "combine_addresses c1 c2 =
     (let a1 = (if notna c1 then strip (str_cell c1) else '''');
          a2 = (if notna c2 then strip (str_cell c2) else '''');
          combined = strip (a1 @ '' '' @ a2)
      in normalize_addr (Str combined))"

text \<open>The loop over \<^verbatim>\<open>address_patterns\<close> (lines 174 to 181).\<close>

fun scan_address_patterns :: "string list \<Rightarrow> frame \<Rightarrow> frame \<times> string list" where
  "scan_address_patterns [] df = (df, [])"
| "scan_address_patterns (pattern # rest) df =
     (case cols_upper df pattern of
        Some col \<Rightarrow>
          (set_column ''ADDRESS'' (normalized_series df col) df,
           [check_mark @ '' Using '' @ col @ '' as ADDRESS column''])
      | None \<Rightarrow> scan_address_patterns rest df)"

text \<open>
  \<^verbatim>\<open>find_and_combine_address_columns\<close> (lines 130 to 181): the table returned and the
  notices shown with \<^verbatim>\<open>st.info\<close>.
\<close>

definition find_and_combine_address_columns :: "frame \<Rightarrow> frame \<times> string list" where
  "find_and_combine_address_columns df =
     (case cols_upper df ''ADDRESS'' of
        Some col \<Rightarrow> (set_column ''ADDRESS'' (normalized_series df col) df, [])
      | None \<Rightarrow>
         (case cols_upper df ''ADDRESS1'' of
            Some addr1_col \<Rightarrow>
              (case cols_upper df ''ADDRESS2'' of
                 Some addr2_col \<Rightarrow>
                   (set_column ''ADDRESS''
                      (map (\<lambda>(c1, c2). Str (combine_addresses c1 c2))
                         (zip (col_values df addr1_col) (col_values df addr2_col))) df,
                    [check_mark @ '' Combined '' @ addr1_col @ '' and '' @ addr2_col
                       @ '' into ADDRESS column''])
               | None \<Rightarrow>
                   (set_column ''ADDRESS'' (normalized_series df addr1_col) df,
                    [check_mark @ '' Using '' @ addr1_col @ '' as ADDRESS column'']))
          | None \<Rightarrow> scan_address_patterns address_patterns df))"

text \<open>
  \<^verbatim>\<open>read_input\<close> (lines 223 to 270) after the pandas reader has produced the table: a
  delimited text file, a workbook in which no header row was found, or a workbook read from
  the header row that the scan of its first 50 rows found.
\<close>

datatype source_kind = CsvFile | ExcelNoHeaderRow | ExcelHeaderRow

definition upper_labels :: "frame \<Rightarrow> frame" where
  "upper_labels df = map (\<lambda>(c, vs). (upper (strip c), vs)) df"

definition fill_address :: "frame \<Rightarrow> frame" where
  "fill_address df =
     (case column df ''ADDRESS'' of
        Some vs \<Rightarrow> set_column ''ADDRESS'' (map (\<lambda>c. Str (normalize_addr c)) (ffill vs)) df
      | None \<Rightarrow> df)"

fun read_input :: "source_kind \<Rightarrow> frame \<Rightarrow> frame" where
  "read_input ExcelHeaderRow parsed =
     (let df = upper_labels parsed;
          df = (case column df ''YEAR'' of
                  Some ys \<Rightarrow> select_rows (map notna ys) df
                | None \<Rightarrow> df)
      in fill_address df)"
| "read_input kind parsed = fill_address (upper_labels parsed)"

text \<open>The start of the script (lines 496 to 500): the table that the rest works on.\<close>

definition load_table :: "source_kind \<Rightarrow> frame \<Rightarrow> frame \<times> string list" where
  "load_table kind parsed =
     find_and_combine_address_columns
       (map (\<lambda>(c, vs). (upper c, vs)) (read_input kind parsed))"

text \<open>
  \<^verbatim>\<open>sorted(xs, key=parse_address_for_sort)\<close>: the key of every element is computed, the
  first failure being raised, and the elements are put in the order of their keys, equal
  keys staying in their order.
\<close>

fun keys_of :: "cell list \<Rightarrow> py_error + (sort_key \<times> cell) list" where
  "keys_of [] = Inr []"
| "keys_of (a # as) =
     (case parse_address_for_sort a of
        Inl e \<Rightarrow> Inl e
      | Inr k \<Rightarrow> (case keys_of as of Inl e \<Rightarrow> Inl e | Inr ks \<Rightarrow> Inr ((k, a) # ks)))"

definition sorted_by_key :: "cell list \<Rightarrow> py_error + cell list" where
  "sorted_by_key xs =
     (case keys_of xs of Inl e \<Rightarrow> Inl e | Inr ks \<Rightarrow> Inr (map snd (sort_key fst ks)))"

text \<open>The addresses offered for selection (lines 520 and 521).\<close>

definition all_addresses :: "frame \<Rightarrow> py_error + cell list" where
  "all_addresses df =
     (case column df ''ADDRESS'' of
        None \<Rightarrow> Inl KeyError
      | Some vs \<Rightarrow>
          sorted_by_key
            (filter (\<lambda>a. strip (str_cell a) \<noteq> []) (drop_duplicates (filter notna vs))))"

section \<open>The listing aggregator\<close>

text \<open>
  \<^verbatim>\<open>pd.to_numeric(..., errors="coerce")\<close> followed by \<^verbatim>\<open>dropna\<close> and \<^verbatim>\<open>astype(int)\<close>, on
  one cell of the \<^verbatim>\<open>YEAR\<close> column: the row is dropped, or it stays with an integer year, or
  the cast raises (an infinite value). A numeric cell of the integral value \<open>n\<close> is
  \<open>Num n\<close>, in an integer column as in a floating-point one (a numeric column with blanks);
  up to \<open>2 ^ 53\<close> in absolute value the cast gives \<open>n\<close> in both. What pandas makes of a
  text and of a larger integer (rounding through 64-bit floats, wrap-around at 64 bits, an
  error) is its own affair; it is the parameter \<open>rd\<close> of everything below.
\<close>

datatype reading = Dropped | Reads int | Raises py_error

fun to_numeric :: "(cell \<Rightarrow> reading) \<Rightarrow> cell \<Rightarrow> reading" where
  "to_numeric rd PyNone = Dropped"
| "to_numeric rd NaN = Dropped"
| "to_numeric rd (Num n) = (if - (2 ^ 53) \<le> n \<and> n \<le> 2 ^ 53 then Reads n else rd (Num n))"
| "to_numeric rd (Str s) = rd (Str s)"

text \<open>The error of the first cell whose cast raises, if there is one.\<close>

fun first_raise :: "reading list \<Rightarrow> py_error option" where
  "first_raise [] = None"
| "first_raise (Raises e # rs) = Some e"
| "first_raise (r # rs) = first_raise rs"

text \<open>\<^verbatim>\<open>astype(str).str.strip()\<close> on one cell.\<close>

definition listing_text :: "cell \<Rightarrow> string" where
  "listing_text c = strip (str_cell c)"

text \<open>The inner function \<^verbatim>\<open>combine_listings\<close> (lines 308 to 315) and its loop.\<close>

fun combine_loop :: "string list \<Rightarrow> string set \<Rightarrow> string list \<Rightarrow> string list" where
  "combine_loop [] seen out = out"
| "combine_loop (item # items) seen out =
     (if item \<notin> seen then combine_loop items (insert item seen) (out @ [item])
      else combine_loop items seen out)"

definition combine_listings :: "string list \<Rightarrow> string" where
  "combine_listings series = join '', '' (combine_loop series {} [])"

text \<open>
  \<^verbatim>\<open>groupby("YEAR", as_index=False)["LISTING"].apply(f)\<close>: one row for each key, the keys
  ascending, each group in the order of its rows in the table. For a table without rows
  pandas returns an empty Series instead of a table; it is \<open>None\<close> here.
\<close>

definition groupby_apply ::
  "(string list \<Rightarrow> string) \<Rightarrow> (int \<times> string) list \<Rightarrow> (int \<times> string) list option" where
  "groupby_apply f t =
     (if t = [] then None
      else Some (map (\<lambda>k. (k, f (map snd (filter (\<lambda>r. fst r = k) t))))
                  (sort (remdups (map fst t)))))"

text \<open>The rows of \<^verbatim>\<open>t\<close> after lines 300 to 306, the rows that enter the aggregation.\<close>

definition year_listing_rows ::
  "(cell \<Rightarrow> reading) \<Rightarrow> cell list \<Rightarrow> cell list \<Rightarrow> (int \<times> string) list" where
  "year_listing_rows rd ys ls =
     filter (\<lambda>(y, l). length l > 0)
       (map (\<lambda>(y, l). (y, listing_text l))
          (List.map_filter
             (\<lambda>(y, l). case to_numeric rd y of Reads n \<Rightarrow> Some (n, l) | _ \<Rightarrow> None)
             (zip ys ls)))"

text \<open>
  \<^verbatim>\<open>format_year_listing\<close> (lines 272 to 324). With both columns the cast of line 303
  raises first; then \<^verbatim>\<open>.rename(columns=...)\<close> of line 321 is applied to what
  \<^verbatim>\<open>apply\<close> returned, and on the empty Series of a table without rows it raises
  \<^verbatim>\<open>TypeError\<close>, a Series taking no such argument.
\<close>

definition format_year_listing :: "(cell \<Rightarrow> reading) \<Rightarrow> frame \<Rightarrow> py_error + out_df" where
  "format_year_listing rd df_addr =
     (case column df_addr ''YEAR'' of
        None \<Rightarrow>
          (case column df_addr ''LISTING'' of
             None \<Rightarrow> Inr []
           | Some ls \<Rightarrow>
               Inr (map (\<lambda>l. (Str ''N/A'', l))
                      (drop_duplicates (filter (\<lambda>l. length l > 0) (map listing_text ls)))))
      | Some ys \<Rightarrow>
          (case column df_addr ''LISTING'' of
             None \<Rightarrow> Inr []
           | Some ls \<Rightarrow>
              (case first_raise (map (to_numeric rd) ys) of
                 Some e \<Rightarrow> Inl e
               | None \<Rightarrow>
                  (case groupby_apply combine_listings (sort (year_listing_rows rd ys ls)) of
                     None \<Rightarrow> Inl TypeError
                   | Some grouped \<Rightarrow> Inr (map (\<lambda>(y, occ). (Num y, occ)) grouped)))))"

section \<open>The report assembler\<close>

text \<open>
  The tables handed to the document library, as the lists of their rows. The dash of the
  subject table is the em dash, here its three bytes.
\<close>

definition em_dash :: string where
  "em_dash = [CHR 0xE2, CHR 0x80, CHR 0x94]"

text \<open>\<^verbatim>\<open>df[df["ADDRESS"] == addr]\<close>; a table without the column raises \<^verbatim>\<open>KeyError\<close>.\<close>

definition address_block :: "frame \<Rightarrow> string \<Rightarrow> py_error + frame" where
  "address_block df addr =
     (case column df ''ADDRESS'' of
        None \<Rightarrow> Inl KeyError
      | Some vs \<Rightarrow> Inr (select_rows (map (\<lambda>a. py_eq a (Str addr)) vs) df))"

text \<open>The body of the loop of \<^verbatim>\<open>build_subject_report_docx\<close> (lines 439 to 453).\<close>

definition subject_rows ::
  "(cell \<Rightarrow> reading) \<Rightarrow> frame \<Rightarrow> string \<Rightarrow> py_error + (string \<times> string) list" where
  "subject_rows rd df addr =
     (case address_block df addr of
        Inl e \<Rightarrow> Inl e
      | Inr block \<Rightarrow>
         (case format_year_listing rd block of
            Inl e \<Rightarrow> Inl e
          | Inr out \<Rightarrow>
         (case compress_year_runs out of
            Inl e \<Rightarrow> Inl e
          | Inr runs \<Rightarrow>
              if runs = [] then Inr [('''', addr @ '' '' @ em_dash @ '' No results'')]
              else Inr (map (\<lambda>(year_label, occ). (year_label, addr @ '' '' @ em_dash @ '' '' @ occ))
                         runs))))"

fun subject_loop ::
  "(cell \<Rightarrow> reading) \<Rightarrow> string list \<Rightarrow> frame \<Rightarrow> (string \<times> string) list
     \<Rightarrow> py_error + (string \<times> string) list" where
  "subject_loop rd [] df table = Inr table"
| "subject_loop rd (addr # rest) df table =
     (case subject_rows rd df addr of
        Inl e \<Rightarrow> Inl e
      | Inr rows \<Rightarrow> subject_loop rd rest df (table @ rows))"

definition build_subject_report_docx ::
  "(cell \<Rightarrow> reading) \<Rightarrow> string list \<Rightarrow> frame \<Rightarrow> py_error + (string \<times> string) list" where
  "build_subject_report_docx rd subject_selected df =
     subject_loop rd subject_selected df
       [(''Year(s)'', ''Subject Property Address(es) '' @ em_dash @ '' Occupant Listed'')]"

text \<open>The body of the loop of \<^verbatim>\<open>build_adjoining_report_docx\<close> (lines 471 to 487).\<close>

definition adjoining_row ::
  "(cell \<Rightarrow> reading) \<Rightarrow> frame \<Rightarrow> (string \<Rightarrow> string option) \<Rightarrow> string
     \<Rightarrow> py_error + (string \<times> string \<times> string)" where
  "adjoining_row rd df direction_map addr =
     (case address_block df addr of
        Inl e \<Rightarrow> Inl e
      | Inr block \<Rightarrow>
         (case format_year_listing rd block of
            Inl e \<Rightarrow> Inl e
          | Inr out \<Rightarrow>
         (case compress_year_runs out of
            Inl e \<Rightarrow> Inl e
          | Inr runs \<Rightarrow>
              (let direction = (case direction_map addr of Some d \<Rightarrow> d | None \<Rightarrow> '''');
                   lines = map (\<lambda>(year_label, occ). occ @ '' ('' @ year_label @ '')'')
                             (filter (\<lambda>(year_label, occ). occ \<noteq> []) runs);
                   occ_text = (if lines \<noteq> [] then join [CHR 0x0A] lines else ''No results'')
               in Inr (direction, addr, occ_text)))))"

fun adjoining_loop ::
  "(cell \<Rightarrow> reading) \<Rightarrow> string list \<Rightarrow> frame \<Rightarrow> (string \<Rightarrow> string option)
     \<Rightarrow> (string \<times> string \<times> string) list \<Rightarrow> py_error + (string \<times> string \<times> string) list" where
  "adjoining_loop rd [] df direction_map table = Inr table"
| "adjoining_loop rd (addr # rest) df direction_map table =
     (case adjoining_row rd df direction_map addr of
        Inl e \<Rightarrow> Inl e
      | Inr row \<Rightarrow> adjoining_loop rd rest df direction_map (table @ [row]))"

definition build_adjoining_report_docx ::
  "(cell \<Rightarrow> reading) \<Rightarrow> string list \<Rightarrow> frame \<Rightarrow> (string \<Rightarrow> string option)
     \<Rightarrow> py_error + (string \<times> string \<times> string) list" where
  "build_adjoining_report_docx rd adjoining_selected df direction_map =
     adjoining_loop rd adjoining_selected df direction_map
       [(''Direction'', ''Adjoining Property Addresses'', ''Occupant Listed (Year)'')]"

section \<open>Auxiliary notions of the properties\<close>

fun is_num :: "cell \<Rightarrow> bool" where
  "is_num (Num n) = True"
| "is_num _ = False"

text \<open>
  The year-aware aggregation in the specification's words: one row for each year that
  occurs, the years ascending; the listings of the year sorted, each kept once at its
  first place, joined with a comma and a space.
\<close>

definition spec_year_text :: "(int \<times> string) list \<Rightarrow> int \<Rightarrow> string" where
  "spec_year_text rows y =
     join '', '' (drop_duplicates (sort (map snd (filter (\<lambda>r. fst r = y) rows))))"

definition spec_year_aware :: "(int \<times> string) list \<Rightarrow> out_df" where
  "spec_year_aware rows =
     map (\<lambda>y. (Num y, spec_year_text rows y)) (sorted_list_of_set (set (map fst rows)))"

text \<open>The fallback synonyms as the specification lists them.\<close>

definition spec_address_synonyms :: "string list" where
  "spec_address_synonyms =
     [''STREET ADDRESS'', ''PROPERTY ADDRESS'', ''SITE ADDRESS'', ''LOCATION'', ''STREET'', ''ADDR'']"

section \<open>Normalisation of addresses\<close>

lemma collapse_ws_head:
  "cs \<noteq> [] \<Longrightarrow> \<not> is_space (hd cs) \<Longrightarrow> collapse_ws cs \<noteq> [] \<and> hd (collapse_ws cs) = hd cs"
  by (cases cs) auto

lemma dropWhile_head: "dropWhile P xs \<noteq> [] \<Longrightarrow> \<not> P (hd (dropWhile P xs))"
  by (metis hd_dropWhile)

lemma collapse_ws_starts:
  "case collapse_ws (dropWhile is_space cs) of [] \<Rightarrow> True | d # _ \<Rightarrow> \<not> is_space d"
proof (cases "dropWhile is_space cs")
  case Nil
  show ?thesis unfolding Nil by simp
next
  case (Cons d ds)
  then have "\<not> is_space d" using dropWhile_head [of is_space cs] by simp
  then show ?thesis unfolding Cons by simp
qed

lemma ws_normal_collapse: "ws_normal (collapse_ws s)"
proof (induction s rule: collapse_ws.induct)
  case 1
  show ?case by simp
next
  case (2 c cs)
  show ?case
  proof (cases "is_space c")
    case True
    with "2.IH"(1) collapse_ws_starts [of cs] show ?thesis by simp
  next
    case False
    with "2.IH"(2) show ?thesis by simp
  qed
qed

lemma collapse_ws_fixed: "ws_normal s \<Longrightarrow> collapse_ws s = s"
proof (induction s rule: collapse_ws.induct)
  case 1
  show ?case by simp
next
  case (2 c cs)
  show ?case
  proof (cases "is_space c")
    case True
    with "2.prems" have c: "c = CHR '' ''" and n: "ws_normal cs"
      and h: "case cs of [] \<Rightarrow> True | d # _ \<Rightarrow> \<not> is_space d" by auto
    from h have "dropWhile is_space cs = cs" by (cases cs) auto
    with True c n "2.IH"(1) show ?thesis by simp
  next
    case False
    with "2.prems" "2.IH"(2) show ?thesis by simp
  qed
qed

lemma strip_trimmed: "trimmed s \<Longrightarrow> strip s = s"
proof (cases s rule: rev_cases)
  case Nil
  then show ?thesis by (simp add: strip_def)
next
  case (snoc ys y)
  assume "trimmed s"
  with snoc have h: "\<not> is_space (hd s)" and l: "\<not> is_space y" by (auto simp: trimmed_def)
  have "s \<noteq> []" using snoc by simp
  with h have d: "dropWhile is_space s = s" by (cases s) simp_all
  have "dropWhile is_space (rev s) = rev s" using snoc l by simp
  with d show ?thesis by (simp add: strip_def)
qed

lemma trimmed_strip: "trimmed (strip s)"
proof -
  define a where "a = dropWhile is_space s"
  define b where "b = dropWhile is_space (rev a)"
  have s: "strip s = rev b" by (simp add: strip_def a_def b_def)
  show ?thesis
  proof (cases b)
    case Nil
    with s show ?thesis by (simp add: trimmed_def)
  next
    case (Cons y ys)
    then have y: "\<not> is_space y" using dropWhile_head [of is_space "rev a"] by (simp add: b_def)
    have "rev a \<noteq> []" using Cons by (auto simp: b_def)
    then have a: "a \<noteq> []" by simp
    then have ha: "\<not> is_space (hd a)" using dropWhile_head [of is_space s] by (simp add: a_def)
    obtain k where k: "rev a = k @ b" unfolding b_def
      by (metis takeWhile_dropWhile_id)
    have "hd (rev b) = last b" using Cons by (simp add: hd_rev)
    also have "\<dots> = last (rev a)" using k Cons by simp
    also have "\<dots> = hd a" using a by (simp add: last_rev)
    finally have "\<not> is_space (hd (rev b))" using ha by simp
    moreover have "last (rev b) = y" using Cons by simp
    ultimately show ?thesis using s y Cons by (simp add: trimmed_def)
  qed
qed

lemma collapse_ws_last:
  "s \<noteq> [] \<Longrightarrow> \<not> is_space (last s) \<Longrightarrow> collapse_ws s \<noteq> [] \<and> last (collapse_ws s) = last s"
proof (induction s rule: collapse_ws.induct)
  case 1
  then show ?case by simp
next
  case (2 c cs)
  show ?case
  proof (cases "is_space c")
    case True
    with "2.prems" have cs: "cs \<noteq> []" by auto
    with "2.prems" have l: "\<not> is_space (last cs)" by simp
    obtain k where k: "cs = k @ dropWhile is_space cs" by (metis takeWhile_dropWhile_id)
    have d: "dropWhile is_space cs \<noteq> []"
    proof
      assume "dropWhile is_space cs = []"
      then have "\<forall>x\<in>set cs. is_space x" by simp
      with cs l show False using last_in_set by blast
    qed
    with k have "last cs = last (dropWhile is_space cs)" by (metis last_appendR)
    with True d l cs "2.IH"(1) show ?thesis by simp
  next
    case False
    show ?thesis
    proof (cases "cs = []")
      case True
      with False show ?thesis by simp
    next
      case ne: False
      with "2.prems" have "\<not> is_space (last cs)" by simp
      with False ne "2.IH"(2) show ?thesis by simp
    qed
  qed
qed

lemma trimmed_collapse:
  assumes "trimmed s"
  shows "trimmed (collapse_ws s)"
proof (cases "s = []")
  case True
  then show ?thesis by (simp add: trimmed_def)
next
  case False
  with assms have h: "\<not> is_space (hd s)" and l: "\<not> is_space (last s)"
    by (auto simp: trimmed_def)
  from collapse_ws_head [OF False h] collapse_ws_last [OF False l] h l
  show ?thesis by (simp add: trimmed_def)
qed

lemma normalize_text_idem:
  "collapse_ws (strip (collapse_ws (strip s))) = collapse_ws (strip s)"
  by (simp add: strip_trimmed trimmed_collapse trimmed_strip collapse_ws_fixed ws_normal_collapse)

lemma strip_empty: "strip [] = []" by (simp add: strip_def)

lemma normalize_addr_idem_cell: "normalize_addr (Str (normalize_addr a)) = normalize_addr a"
  by (cases a) (simp_all add: normalize_text_idem strip_empty)

text \<open>
  Claim C9: \<^verbatim>\<open>normalize_addr\<close> is idempotent; for every text \<open>s\<close>, normalising the
  normalised text gives the normalised text again.
\<close>

theorem normalize_addr_idempotent:
  "normalize_addr (Str (normalize_addr (Str s))) = normalize_addr (Str s)"
  by (simp add: normalize_text_idem)

theorem normalize_addr_idempotent_witness:
  "normalize_addr (Str ''  12   Main  St '') = ''12 Main St''
   \<and> normalize_addr (Str ''12 Main St'') = ''12 Main St''"
  using normalize_addr_idempotent [of "''  12   Main  St ''"]
  by (simp add: strip_def is_space_def)

section \<open>Properties of the run compressor\<close>

lemma digit_char_is_digit: "d < 10 \<Longrightarrow> is_digit (digit_char d)"
  unfolding is_digit_def digit_char_def by (rule nth_mem) simp

lemma str_nat_digits: "str_nat n \<noteq> [] \<and> list_all is_digit (str_nat n)"
proof (induction n rule: str_nat.induct)
  case (1 n)
  show ?case
  proof (cases "n < 10")
    case True
    then show ?thesis by (subst str_nat.simps, subst (2) str_nat.simps) (simp add: digit_char_is_digit)
  next
    case False
    with 1 show ?thesis
      by (subst str_nat.simps, subst (2) str_nat.simps) (simp add: digit_char_is_digit)
  qed
qed

lemma str_int_head: "str_int i \<noteq> [] \<and> (hd (str_int i) = CHR ''-'' \<or> is_digit (hd (str_int i)))"
proof (cases "i < 0")
  case True
  then show ?thesis by (simp add: str_int_def)
next
  case False
  obtain c cs where s: "str_nat (nat i) = c # cs"
    using str_nat_digits [of "nat i"] by (cases "str_nat (nat i)") auto
  with str_nat_digits [of "nat i"] have "is_digit c" by simp
  with False s show ?thesis by (simp add: str_int_def)
qed

lemma str_int_not_na: "str_int i \<noteq> ''N/A''"
proof
  assume "str_int i = ''N/A''"
  with str_int_head [of i] show False by (simp add: is_digit_def)
qed

lemma is_run_ends:
  "is_run g \<Longrightarrow> snd (last g) = snd (hd g) \<and> fst (last g) = fst (hd g) + int (length g) - 1"
  by (induction g rule: is_run.induct) (auto simp: continues_def)

lemma is_run_snoc: "is_run g \<Longrightarrow> continues (last g) r \<Longrightarrow> is_run (g @ [r])"
  by (induction g rule: is_run.induct) auto

lemma run_label_run:
  assumes "is_run g"
  shows "(run_label (Num (fst (hd g))) (Num (fst (last g))), snd (hd g)) = spec_run_row g"
proof -
  from assms have ne: "g \<noteq> []" by auto
  then have "length g = 1 \<longleftrightarrow> int (length g) = 1" by simp
  with is_run_ends [OF assms] ne have "fst (hd g) = fst (last g) \<longleftrightarrow> length g = 1"
    by (cases g) auto
  then show ?thesis by (auto simp: run_label_def spec_run_row_def)
qed

lemma compress_loop_runs:
  "is_run cur \<Longrightarrow>
   compress_loop (Num (fst (hd cur))) (Num (fst (last cur))) (snd (hd cur)) (year_rows rest) acc
     = Inr (acc @ map spec_run_row (runs_from cur rest))"
proof (induction rest arbitrary: cur acc)
  case Nil
  then show ?case by (simp add: year_rows_def run_label_run)
next
  case (Cons r rest)
  obtain y occ where r: "r = (y, occ)" by (cases r)
  from Cons.prems have ne: "cur \<noteq> []" by auto
  have c: "continues (last cur) r \<longleftrightarrow> y = fst (last cur) + 1 \<and> occ = snd (hd cur)"
    using is_run_ends [OF Cons.prems] by (auto simp: continues_def r)
  show ?case
  proof (cases "continues (last cur) r")
    case True
    from is_run_snoc [OF Cons.prems True] have run: "is_run (cur @ [r])" .
    from Cons.IH [OF run, of acc] ne True c r show ?thesis
      by (simp add: year_rows_def)
  next
    case False
    have run: "is_run [r]" by simp
    from Cons.IH [OF run, of "acc @ [spec_run_row cur]"] False c r run_label_run [OF Cons.prems]
    show ?thesis by (auto simp: year_rows_def)
  qed
qed

lemma concat_runs_from: "concat (runs_from cur rest) = cur @ rest"
  by (induction rest arbitrary: cur) auto

lemma is_run_runs_from: "is_run cur \<Longrightarrow> list_all is_run (runs_from cur rest)"
  by (induction rest arbitrary: cur) (auto simp: is_run_snoc)

lemma runs_from_head:
  "cur \<noteq> [] \<Longrightarrow> runs_from cur rest \<noteq> [] \<and> hd (hd (runs_from cur rest)) = hd cur"
  by (induction rest arbitrary: cur) auto

lemma maximal_runs_from: "cur \<noteq> [] \<Longrightarrow> maximal_runs (runs_from cur rest)"
proof (induction rest arbitrary: cur)
  case Nil
  then show ?case by simp
next
  case (Cons r rest)
  show ?case
  proof (cases "continues (last cur) r")
    case True
    with Cons.IH [of "cur @ [r]"] show ?thesis by simp
  next
    case False
    obtain h gs where h: "runs_from [r] rest = h # gs"
      using runs_from_head [of "[r]" rest] by (cases "runs_from [r] rest") auto
    with runs_from_head [of "[r]" rest] have "hd h = r" by simp
    with False h Cons.IH [of "[r]"] show ?thesis by simp
  qed
qed

lemma compress_year_rows:
  "compress_year_runs (year_rows rs) = Inr (map spec_run_row (spec_year_runs rs))"
proof (cases rs)
  case Nil
  then show ?thesis by (simp add: compress_year_runs_def year_rows_def)
next
  case (Cons r rest)
  obtain y occ where r: "r = (y, occ)" by (cases r)
  have run: "is_run [r]" by simp
  have "compress_year_runs (year_rows rs) = compress_loop (Num y) (Num y) occ (year_rows rest) []"
    using Cons r by (simp add: compress_year_runs_def year_rows_def str_int_not_na)
  also have "\<dots> = Inr (map spec_run_row (runs_from [r] rest))"
    using compress_loop_runs [OF run, of rest "[]"] r by simp
  finally show ?thesis using Cons by simp
qed

text \<open>
  Claim C1: on rows with integer years \<^verbatim>\<open>compress_year_runs\<close> returns one row for every
  maximal run of consecutive years (year \<open>N\<close> directly followed by \<open>N + 1\<close>) with identical
  occupant text, labelled \<^verbatim>\<open>startYear-endYear\<close>, or \<^verbatim>\<open>startYear\<close> for a run of one row.
  The runs are the rows in their order, each is a run, and no run continues into the next
  one, so a gap between years always separates two rows of the output even when the
  occupant texts agree. The empty table gives the empty list. The property needs no
  ordering of the input.
\<close>

theorem compress_year_runs_maximal_runs:
  "compress_year_runs (year_rows rs) = Inr (map spec_run_row (spec_year_runs rs))
   \<and> concat (spec_year_runs rs) = rs
   \<and> list_all is_run (spec_year_runs rs)
   \<and> maximal_runs (spec_year_runs rs)
   \<and> compress_year_runs [] = Inr []"
proof (cases rs)
  case Nil
  then show ?thesis by (simp add: compress_year_runs_def year_rows_def)
next
  case (Cons r rest)
  have run: "is_run [r]" by simp
  have "concat (spec_year_runs rs) = rs" using Cons by (simp add: concat_runs_from)
  moreover have "list_all is_run (spec_year_runs rs)"
    using Cons is_run_runs_from [OF run] by simp
  moreover have "maximal_runs (spec_year_runs rs)"
    using Cons maximal_runs_from [of "[r]" rest] by simp
  moreover have "compress_year_runs [] = Inr []" by (simp add: compress_year_runs_def)
  ultimately show ?thesis using compress_year_rows [of rs] by blast
qed

theorem compress_year_runs_maximal_runs_witness:
  "compress_year_runs (year_rows [(1970, ''A''), (1971, ''A''), (1972, ''B'')])
     = Inr [(''1970-1971'', ''A''), (''1972'', ''B'')]
   \<and> compress_year_runs (year_rows [(1970, ''A''), (1972, ''A'')])
     = Inr [(''1970'', ''A''), (''1972'', ''A'')]
   \<and> spec_year_runs [(1970, ''A''), (1972, ''A'')] = [[(1970, ''A'')], [(1972, ''A'')]]
   \<and> maximal_runs [[(1970, ''A'')], [(1972, ''A'')]]"
  using compress_year_runs_maximal_runs [of "[(1970, ''A''), (1971, ''A''), (1972, ''B'')]"]
    compress_year_runs_maximal_runs [of "[(1970, ''A''), (1972, ''A'')]"]
  by (simp add: continues_def spec_run_row_def str_int_def str_nat.simps digit_char_def)

section \<open>Where the run compressor returns\<close>

lemma compress_passthrough:
  "list_all (\<lambda>(y, occ). y = Str ''N/A'') out \<Longrightarrow>
   compress_year_runs out = Inr (map (\<lambda>(y, occ). (''N/A'', occ)) out)"
proof (cases out)
  case Nil
  then show ?thesis by (simp add: compress_year_runs_def)
next
  case (Cons r rest)
  assume a: "list_all (\<lambda>(y, occ). y = Str ''N/A'') out"
  then have g: "list_all (\<lambda>(y, occ). str_cell y = ''N/A'') out"
    by (auto simp: list_all_iff)
  from a have m: "map (\<lambda>(y, occ). (str_cell y, occ)) out = map (\<lambda>(y, occ). (''N/A'', occ)) out"
    by (auto simp: list_all_iff)
  obtain y0 occ0 where "r = (y0, occ0)" by (cases r)
  with Cons g m show ?thesis
    unfolding compress_year_runs_def by (simp only: list.case prod.case if_True)
qed

lemma compress_loop_type_error:
  "\<exists>s. Str s \<in> set (butlast (prev_y # map fst rest)) \<Longrightarrow>
   compress_loop start_y prev_y prev_occ rest rows = Inl TypeError"
proof (induction rest arbitrary: start_y prev_y prev_occ rows)
  case Nil
  then show ?case by simp
next
  case (Cons r rest)
  obtain y occ where r: "r = (y, occ)" by (cases r)
  show ?case
  proof (cases prev_y)
    case (Str s)
    then show ?thesis by (simp add: r)
  next
    case PyNone
    then show ?thesis by (simp add: r)
  next
    case NaN
    with Cons.prems r have "\<exists>s. Str s \<in> set (butlast (y # map fst rest))" by auto
    from Cons.IH [OF this] NaN r show ?thesis by simp
  next
    case (Num n)
    with Cons.prems r have "\<exists>s. Str s \<in> set (butlast (y # map fst rest))" by auto
    from Cons.IH [OF this] Num r show ?thesis by simp
  qed
qed

lemma compress_type_error:
  assumes "(Str s, occ) \<in> set (butlast out)"
    and "\<not> list_all (\<lambda>(y, occ). str_cell y = ''N/A'') out"
  shows "compress_year_runs out = Inl TypeError"
proof (cases out)
  case Nil
  with assms show ?thesis by simp
next
  case (Cons r rest)
  obtain y0 occ0 where r: "r = (y0, occ0)" by (cases r)
  have "Str s \<in> fst ` set (butlast out)" using assms(1) by force
  then have "Str s \<in> set (map fst (butlast out))" by simp
  then have "Str s \<in> set (butlast (map fst out))" by (simp only: map_butlast)
  then have "\<exists>s. Str s \<in> set (butlast (y0 # map fst rest))" using Cons r by auto
  from compress_loop_type_error [OF this] have "compress_loop y0 y0 occ0 rest [] = Inl TypeError" .
  with assms(2) Cons r show ?thesis
    unfolding compress_year_runs_def by (simp only: list.case prod.case if_False)
qed

lemma compress_loop_returns:
  "is_num prev_y \<or> rest = [] \<Longrightarrow> list_all (\<lambda>(y, occ). is_num y) (butlast rest) \<Longrightarrow>
   \<exists>res. compress_loop start_y prev_y prev_occ rest rows = Inr res"
proof (induction rest arbitrary: start_y prev_y prev_occ rows)
  case Nil
  then show ?case by simp
next
  case (Cons r rest)
  obtain y occ where r: "r = (y, occ)" by (cases r)
  from Cons.prems(1) obtain n where n: "prev_y = Num n" by (cases prev_y) auto
  have 1: "is_num y \<or> rest = []" using Cons.prems(2) r by (cases rest) auto
  have 2: "list_all (\<lambda>(y, occ). is_num y) (butlast rest)" using Cons.prems(2) by (cases rest) auto
  from Cons.IH [OF 1 2] n r show ?case by simp
qed

lemma compress_returns:
  assumes "list_all (\<lambda>(y, occ). is_num y) (butlast out)"
  shows "\<exists>res. compress_year_runs out = Inr res"
proof (cases out)
  case Nil
  then show ?thesis by (simp add: compress_year_runs_def)
next
  case (Cons r rest)
  obtain y0 occ0 where r: "r = (y0, occ0)" by (cases r)
  have 1: "is_num y0 \<or> rest = []" using assms Cons r by (cases rest) auto
  have 2: "list_all (\<lambda>(y, occ). is_num y) (butlast rest)" using assms Cons by (cases rest) auto
  from compress_loop_returns [OF 1 2] obtain res where "compress_loop y0 y0 occ0 rest [] = Inr res"
    by blast
  then show ?thesis using Cons r
    by (cases "list_all (\<lambda>(y, occ). str_cell y = ''N/A'') out")
       (simp_all add: compress_year_runs_def)
qed

lemma format_year_listing_shape:
  assumes "format_year_listing rd df = Inr out"
  shows "list_all (\<lambda>(y, occ). y = Str ''N/A'') out \<or> (\<exists>rs. out = year_rows rs)"
proof (cases "column df ''YEAR''")
  case None
  with assms show ?thesis
    by (auto simp: format_year_listing_def list_all_iff split: option.splits)
next
  case (Some ys)
  show ?thesis
  proof (cases "column df ''LISTING''")
    case None
    with Some assms have "out = year_rows []"
      by (simp add: format_year_listing_def year_rows_def)
    then show ?thesis by blast
  next
    case ls: (Some ls)
    from Some ls assms obtain grouped where "out = map (\<lambda>(y, occ). (Num y, occ)) grouped"
      by (auto simp: format_year_listing_def split: option.splits)
    then have "out = year_rows grouped" by (simp add: year_rows_def)
    then show ?thesis by blast
  qed
qed

lemma compress_format_returns:
  "format_year_listing rd df = Inr out \<Longrightarrow> \<exists>res. compress_year_runs out = Inr res"
  using format_year_listing_shape [of rd df out] compress_passthrough compress_year_rows by metis

text \<open>
  Claim C10, amended: \<^verbatim>\<open>compress_year_runs\<close> returns on every table whose year labels are all
  the text \<^verbatim>\<open>N/A\<close> (the rows pass through) and on every table whose years are all integers,
  and every table that \<^verbatim>\<open>format_year_listing\<close> returns is of one of these two kinds, so
  \<^verbatim>\<open>compress_year_runs\<close> raises nothing on it. On a table that mixes the two kinds the guard
  fails; the successor is then taken of a label that is not an integer, and \<^verbatim>\<open>TypeError\<close> is
  raised, when an \<^verbatim>\<open>N/A\<close> label stands before the last row. When all rows before the last
  have integer years the function returns.
\<close>

theorem compress_year_runs_total_on_uniform_labels:
  "(list_all (\<lambda>(y, occ). y = Str ''N/A'') out \<longrightarrow>
      compress_year_runs out = Inr (map (\<lambda>(y, occ). (''N/A'', occ)) out))
   \<and> compress_year_runs (year_rows rs) = Inr (map spec_run_row (spec_year_runs rs))
   \<and> (format_year_listing rd df = Inr produced \<longrightarrow>
        (list_all (\<lambda>(y, occ). y = Str ''N/A'') produced \<or> (\<exists>rs'. produced = year_rows rs'))
        \<and> (\<exists>res. compress_year_runs produced = Inr res))
   \<and> ((Str ''N/A'', occ) \<in> set (butlast mixed) \<and> (Num n, occ') \<in> set mixed \<longrightarrow>
        compress_year_runs mixed = Inl TypeError)
   \<and> (list_all (\<lambda>(y, occ). is_num y) (butlast mixed') \<longrightarrow>
        (\<exists>res. compress_year_runs mixed' = Inr res))"
proof -
  have "compress_year_runs mixed = Inl TypeError"
    if a: "(Str ''N/A'', occ) \<in> set (butlast mixed)" and b: "(Num n, occ') \<in> set mixed"
  proof -
    from b have "\<not> list_all (\<lambda>(y, occ). str_cell y = ''N/A'') mixed"
      by (auto simp: list_all_iff str_int_not_na intro!: bexI [of _ "(Num n, occ')"])
    with a show ?thesis by (rule compress_type_error)
  qed
  then show ?thesis
    using compress_passthrough [of out] compress_year_rows [of rs]
      format_year_listing_shape [of rd df produced] compress_format_returns [of rd df produced]
      compress_returns [of mixed']
    by blast
qed

theorem compress_year_runs_total_on_uniform_labels_witness:
  "compress_year_runs [(Str ''N/A'', ''A''), (Str ''N/A'', ''B'')]
     = Inr [(''N/A'', ''A''), (''N/A'', ''B'')]
   \<and> compress_year_runs (year_rows [(1970, ''A''), (1971, ''A'')]) = Inr [(''1970-1971'', ''A'')]
   \<and> format_year_listing (\<lambda>c. Dropped)
        [(''YEAR'', [Num 1970, Num 1971]), (''LISTING'', [Str ''A'', Str ''A''])]
       = Inr [(Num 1970, ''A''), (Num 1971, ''A'')]
   \<and> (\<exists>res. compress_year_runs [(Num 1970, ''A''), (Num 1971, ''A'')] = Inr res)
   \<and> (Str ''N/A'', ''B'') \<in> set (butlast [(Str ''N/A'', ''B''), (Num 1970, ''A'')])
   \<and> (Num 1970, ''A'') \<in> set [(Str ''N/A'', ''B''), (Num 1970, ''A'')]
   \<and> compress_year_runs [(Str ''N/A'', ''B''), (Num 1970, ''A'')] = Inl TypeError
   \<and> list_all (\<lambda>(y, occ). is_num y) (butlast [(Num 1970, ''A''), (Str ''N/A'', ''B'')])
   \<and> (\<exists>res. compress_year_runs [(Num 1970, ''A''), (Str ''N/A'', ''B'')] = Inr res)"
proof -
  have f: "format_year_listing (\<lambda>c. Dropped)
        [(''YEAR'', [Num 1970, Num 1971]), (''LISTING'', [Str ''A'', Str ''A''])]
       = Inr [(Num 1970, ''A''), (Num 1971, ''A'')]"
    by code_simp
  from f compress_year_runs_total_on_uniform_labels
    [where out = "[(Str ''N/A'', ''A''), (Str ''N/A'', ''B'')]"
       and rs = "[(1970, ''A''), (1971, ''A'')]"
       and rd = "\<lambda>c. Dropped"
       and df = "[(''YEAR'', [Num 1970, Num 1971]), (''LISTING'', [Str ''A'', Str ''A''])]"
       and produced = "[(Num 1970, ''A''), (Num 1971, ''A'')]"
       and occ = "''B''" and mixed = "[(Str ''N/A'', ''B''), (Num 1970, ''A'')]"
       and n = 1970 and occ' = "''A''"
       and mixed' = "[(Num 1970, ''A''), (Str ''N/A'', ''B'')]"]
  show ?thesis
    by (simp add: spec_run_row_def continues_def str_int_def str_nat.simps digit_char_def)
qed

theorem compress_year_runs_mixed_counterexample:
  "\<not> list_all (\<lambda>(y, occ). str_cell y = ''N/A'') [(Num 1970, ''A''), (Str ''N/A'', ''B'')]
   \<and> compress_year_runs [(Num 1970, ''A''), (Str ''N/A'', ''B'')]
       = Inr [(''1970'', ''A''), (''N/A'', ''B'')]"
  by (simp add: compress_year_runs_def run_label_def str_int_def str_nat.simps digit_char_def)

section \<open>Properties of the listing aggregator\<close>

lemma set_drop_duplicates: "set (drop_duplicates xs) = set xs"
  by (induction xs rule: drop_duplicates.induct) auto

lemma distinct_drop_duplicates: "distinct (drop_duplicates xs)"
  by (induction xs rule: drop_duplicates.induct) (auto simp: set_drop_duplicates)

lemma drop_duplicates_distinct: "distinct xs \<Longrightarrow> drop_duplicates xs = xs"
proof (induction xs rule: drop_duplicates.induct)
  case 1
  show ?case by simp
next
  case (2 x xs)
  then have "filter (\<lambda>y. y \<noteq> x) xs = xs" by (auto intro: filter_True)
  with 2 show ?case by simp
qed

lemma length_drop_duplicates: "length (drop_duplicates xs) = card (set xs)"
  using distinct_card [OF distinct_drop_duplicates, of xs] by (simp add: set_drop_duplicates)

lemma sorted_drop_duplicates: "sorted xs \<Longrightarrow> sorted (drop_duplicates xs)"
proof (induction xs rule: drop_duplicates.induct)
  case 1
  show ?case by simp
next
  case (2 x xs)
  then have "sorted (filter (\<lambda>y. y \<noteq> x) xs)" by (simp add: sorted_wrt_filter)
  with 2 show ?case by (auto simp: set_drop_duplicates)
qed

lemma drop_duplicates_sort: "drop_duplicates (sort xs) = sorted_list_of_set (set xs)"
proof -
  have "sorted (drop_duplicates (sort xs))" by (simp add: sorted_drop_duplicates)
  moreover have "distinct (drop_duplicates (sort xs))" by (rule distinct_drop_duplicates)
  moreover have "set (drop_duplicates (sort xs)) = set xs" by (simp add: set_drop_duplicates)
  ultimately show ?thesis
    by (metis sorted_list_of_set.idem_if_sorted_distinct)
qed

lemma combine_loop_drop_duplicates:
  "combine_loop items seen out = out @ drop_duplicates (filter (\<lambda>x. x \<notin> seen) items)"
proof (induction items arbitrary: seen out)
  case Nil
  show ?case by simp
next
  case (Cons item items)
  show ?case
  proof (cases "item \<in> seen")
    case True
    with Cons show ?thesis by simp
  next
    case False
    have "filter (\<lambda>x. x \<notin> insert item seen) items
        = filter (\<lambda>y. y \<noteq> item) (filter (\<lambda>x. x \<notin> seen) items)"
      by (auto intro: filter_cong)
    with False Cons show ?thesis by simp
  qed
qed

lemma combine_listings_eq: "combine_listings xs = join '', '' (drop_duplicates xs)"
  by (simp add: combine_listings_def combine_loop_drop_duplicates)

lemma sort_same_key:
  fixes rows :: "(int \<times> string) list"
  assumes "\<forall>r \<in> set rows. fst r = y"
  shows "map snd (sort rows) = sort (map snd rows)"
proof -
  have rows: "rows = map (Pair y) (map snd rows)"
    using assms by (induction rows) auto
  let ?zs = "sort (map snd rows)"
  have "mset (map (Pair y) ?zs) = mset rows"
    by (subst (2) rows) (simp only: mset_map mset_sort)
  moreover have "sorted (map (Pair y) ?zs)"
    using sorted_sort [of "map snd rows"]
    by (simp add: sorted_wrt_map)
  ultimately have "sort rows = map (Pair y) ?zs"
    by (metis properties_for_sort)
  then show ?thesis by (simp add: comp_def)
qed

lemma group_of_sorted:
  fixes rows :: "(int \<times> string) list"
  shows "map snd (filter (\<lambda>r. fst r = y) (sort rows)) = sort (map snd (filter (\<lambda>r. fst r = y) rows))"
proof -
  let ?g = "filter (\<lambda>r. fst r = y) rows"
  have "filter (\<lambda>r. fst r = y) (sort rows) = sort ?g"
    by (rule filter_sort)
  then have "map snd (filter (\<lambda>r. fst r = y) (sort rows)) = map snd (sort ?g)"
    by (rule arg_cong)
  also have "\<dots> = sort (map snd ?g)"
    by (rule sort_same_key [of ?g y]) simp
  finally show ?thesis .
qed

lemma groupby_sorted_spec:
  assumes "rows \<noteq> []"
  shows "groupby_apply combine_listings (sort rows)
         = Some (map (\<lambda>y. (y, spec_year_text rows y)) (sorted_list_of_set (set (map fst rows))))"
proof -
  have "sort (remdups (map fst (sort rows))) = sorted_list_of_set (set (map fst rows))"
    by (simp add: sorted_list_of_set_sort_remdups [symmetric])
  moreover have "sort rows \<noteq> []" using assms by (metis length_sort length_0_conv)
  ultimately show ?thesis
    unfolding groupby_apply_def spec_year_text_def
    by (simp only: group_of_sorted combine_listings_eq if_False)
qed

lemma groupby_no_rows: "groupby_apply f [] = None"
  by (simp add: groupby_apply_def)

lemma format_year_aware_eq:
  assumes "column df ''YEAR'' = Some ys" and "column df ''LISTING'' = Some ls"
    and "first_raise (map (to_numeric rd) ys) = None"
  shows "format_year_listing rd df
         = (if year_listing_rows rd ys ls = [] then Inl TypeError
            else Inr (spec_year_aware (year_listing_rows rd ys ls)))"
proof (cases "year_listing_rows rd ys ls = []")
  case True
  with assms show ?thesis by (simp add: format_year_listing_def groupby_no_rows)
next
  case False
  from groupby_sorted_spec [OF False] assms False show ?thesis
    by (simp add: format_year_listing_def spec_year_aware_def comp_def)
qed

lemma drop_duplicates_snoc:
  "drop_duplicates (xs @ [x]) = (if x \<in> set xs then drop_duplicates xs else drop_duplicates xs @ [x])"
proof (induction xs rule: drop_duplicates.induct)
  case 1
  show ?case by simp
next
  case (2 y ys)
  show ?case
  proof (cases "x = y")
    case True
    then show ?thesis by simp
  next
    case False
    then have "x \<in> set (filter (\<lambda>z. z \<noteq> y) ys) \<longleftrightarrow> x \<in> set ys" by auto
    with False 2 show ?thesis by simp
  qed
qed

text \<open>
  Claim C3: without a \<^verbatim>\<open>YEAR\<close> column the aggregation takes the texts of the listing cells,
  trimmed, drops the empty ones, keeps each at its first occurrence, in the order met and
  without sorting, and gives each its own row labelled \<^verbatim>\<open>N/A\<close>; the compressor passes these
  rows through. The text of a cell is taken with \<^verbatim>\<open>astype(str)\<close> before the empty ones are
  dropped, so a missing cell has the text \<^verbatim>\<open>nan\<close> (\<^verbatim>\<open>None\<close> for Python's \<^verbatim>\<open>None\<close>), is not
  dropped and becomes an occupant row of its own: on the table with the listings
  \<^verbatim>\<open>Acme Co\<close>, a missing cell and a blank text the code returns a row for \<^verbatim>\<open>nan\<close>, where
  the claim collects the non-empty listing values only.
\<close>

theorem format_year_listing_year_absent:
  "(column df ''YEAR'' = None \<and> column df ''LISTING'' = Some ls \<longrightarrow>
      format_year_listing rd df
        = Inr (map (\<lambda>l. (Str ''N/A'', l))
                 (drop_duplicates (filter (\<lambda>l. l \<noteq> []) (map listing_text ls))))
      \<and> compress_year_runs
           (map (\<lambda>l. (Str ''N/A'', l))
              (drop_duplicates (filter (\<lambda>l. l \<noteq> []) (map listing_text ls))))
        = Inr (map (\<lambda>l. (''N/A'', l))
                 (drop_duplicates (filter (\<lambda>l. l \<noteq> []) (map listing_text ls)))))
   \<and> drop_duplicates (xs @ [x])
        = (if x \<in> set xs then drop_duplicates xs else drop_duplicates xs @ [x :: string])
   \<and> listing_text NaN = ''nan'' \<and> listing_text PyNone = ''None''
   \<and> format_year_listing rd [(''LISTING'', [Str ''Acme Co'', NaN, Str ''  ''])]
        = Inr [(Str ''N/A'', ''Acme Co''), (Str ''N/A'', ''nan'')]
   \<and> compress_year_runs [(Str ''N/A'', ''Acme Co''), (Str ''N/A'', ''nan'')]
        = Inr [(''N/A'', ''Acme Co''), (''N/A'', ''nan'')]"
proof -
  let ?u = "drop_duplicates (filter (\<lambda>l. l \<noteq> []) (map listing_text ls))"
  have f: "format_year_listing rd df = Inr (map (\<lambda>l. (Str ''N/A'', l)) ?u)"
    if "column df ''YEAR'' = None \<and> column df ''LISTING'' = Some ls"
    using that by (simp add: format_year_listing_def)
  have "list_all (\<lambda>(y, occ). y = Str ''N/A'') (map (\<lambda>l. (Str ''N/A'', l)) ?u)"
    by (simp add: list_all_iff)
  from compress_passthrough [OF this]
  have c: "compress_year_runs (map (\<lambda>l. (Str ''N/A'', l)) ?u) = Inr (map (\<lambda>l. (''N/A'', l)) ?u)"
    by (simp add: comp_def)
  have n: "listing_text NaN = ''nan'' \<and> listing_text PyNone = ''None''"
    by (simp add: listing_text_def strip_def is_space_def)
  have e: "format_year_listing rd [(''LISTING'', [Str ''Acme Co'', NaN, Str ''  ''])]
        = Inr [(Str ''N/A'', ''Acme Co''), (Str ''N/A'', ''nan'')]"
    by (simp add: format_year_listing_def column_def listing_text_def strip_def is_space_def)
  have p: "compress_year_runs [(Str ''N/A'', ''Acme Co''), (Str ''N/A'', ''nan'')]
        = Inr [(''N/A'', ''Acme Co''), (''N/A'', ''nan'')]"
    by (simp add: compress_year_runs_def)
  from f c n e p drop_duplicates_snoc [of xs x] show ?thesis by (intro conjI impI) blast+
qed

theorem format_year_listing_year_absent_witness:
  "column [(''LISTING'', [Str ''Beta Inc'', Str '' Acme Co'', NaN, Str ''Beta Inc''])] ''YEAR'' = None
   \<and> column [(''LISTING'', [Str ''Beta Inc'', Str '' Acme Co'', NaN, Str ''Beta Inc''])] ''LISTING''
       = Some [Str ''Beta Inc'', Str '' Acme Co'', NaN, Str ''Beta Inc'']
   \<and> format_year_listing (\<lambda>c. Dropped)
        [(''LISTING'', [Str ''Beta Inc'', Str '' Acme Co'', NaN, Str ''Beta Inc''])]
       = Inr [(Str ''N/A'', ''Beta Inc''), (Str ''N/A'', ''Acme Co''), (Str ''N/A'', ''nan'')]"
proof -
  let ?ls = "[Str ''Beta Inc'', Str '' Acme Co'', NaN, Str ''Beta Inc'']"
  let ?df = "[(''LISTING'', ?ls)]"
  have y: "column ?df ''YEAR'' = None" by (simp add: column_def)
  have l: "column ?df ''LISTING'' = Some ?ls" by (simp add: column_def)
  have v: "drop_duplicates (filter (\<lambda>l. l \<noteq> []) (map listing_text ?ls))
       = [''Beta Inc'', ''Acme Co'', ''nan'']"
    by (simp add: listing_text_def strip_def is_space_def)
  from format_year_listing_year_absent [where df = ?df and ls = ?ls and rd = "\<lambda>c. Dropped"
      and xs = "[]" and x = "[]"] y l
  have "format_year_listing (\<lambda>c. Dropped) ?df
      = Inr (map (\<lambda>l. (Str ''N/A'', l))
               (drop_duplicates (filter (\<lambda>l. l \<noteq> []) (map listing_text ?ls))))"
    by blast
  then have "format_year_listing (\<lambda>c. Dropped) ?df
      = Inr [(Str ''N/A'', ''Beta Inc''), (Str ''N/A'', ''Acme Co''), (Str ''N/A'', ''nan'')]"
    by (simp only: v) simp
  with y l show ?thesis by blast
qed

lemma strict_years: "sorted_wrt (<) (sorted_list_of_set (set (xs :: int list)))"
  by (simp add: strict_sorted_iff)

text \<open>
  Claim C2: with a \<^verbatim>\<open>YEAR\<close> column, and rows that enter the aggregation, the code gives
  exactly one row for each year that occurs among them, the years strictly ascending and
  no year filled in; the occupant text of a year is its listings sorted ascending, each
  kept once (which for a sorted list is the sorted list of the set of listings), joined
  with a comma and a space. Listings \<^verbatim>\<open>Acme Co, Acme Co, Beta Inc\<close> of one year give
  \<^verbatim>\<open>Acme Co, Beta Inc\<close>. When no row enters the aggregation, where the claim has no year
  and hence no row, the code raises \<^verbatim>\<open>TypeError\<close> instead of returning the empty table.
\<close>

theorem format_year_listing_year_aware:
  assumes "column df ''YEAR'' = Some ys" and "column df ''LISTING'' = Some ls"
    and "first_raise (map (to_numeric rd) ys) = None"
  shows "(year_listing_rows rd ys ls \<noteq> [] \<longrightarrow>
            format_year_listing rd df = Inr (spec_year_aware (year_listing_rows rd ys ls)))
    \<and> (year_listing_rows rd ys ls = [] \<longrightarrow> format_year_listing rd df = Inl TypeError)
    \<and> spec_year_aware [] = []
    \<and> map fst (spec_year_aware rows) = map Num (sorted_list_of_set (set (map fst rows)))
    \<and> sorted_wrt (<) (sorted_list_of_set (set (map fst rows)))
    \<and> set (sorted_list_of_set (set (map fst rows))) = fst ` set rows
    \<and> spec_year_text rows y
         = join '', '' (sorted_list_of_set (set (map snd (filter (\<lambda>r. fst r = y) rows))))"
proof -
  have "map fst (spec_year_aware rows) = map Num (sorted_list_of_set (set (map fst rows)))"
    by (simp add: spec_year_aware_def comp_def)
  moreover have "spec_year_text rows y
         = join '', '' (sorted_list_of_set (set (map snd (filter (\<lambda>r. fst r = y) rows))))"
    unfolding spec_year_text_def by (simp only: drop_duplicates_sort)
  moreover have "spec_year_aware [] = []" by (simp add: spec_year_aware_def)
  ultimately show ?thesis
    using strict_years [of "map fst rows"] format_year_aware_eq [OF assms] by simp
qed

theorem format_year_listing_year_aware_witness:
  "format_year_listing (\<lambda>c. Dropped)
      [(''YEAR'', [Num 1980, Num 1979, Num 1980, Num 1980]),
       (''LISTING'', [Str ''Beta Inc'', Str ''Zed'', Str ''Acme Co'', Str ''Acme Co''])]
     = Inr [(Num 1979, ''Zed''), (Num 1980, ''Acme Co, Beta Inc'')]
   \<and> spec_year_text [(1980, ''Acme Co''), (1980, ''Acme Co''), (1980, ''Beta Inc'')] 1980
     = ''Acme Co, Beta Inc''
   \<and> year_listing_rows (\<lambda>c. Dropped) [NaN, Str ''n.d.''] [Str ''Acme Co'', Str ''Beta Inc''] = []
   \<and> format_year_listing (\<lambda>c. Dropped)
      [(''YEAR'', [NaN, Str ''n.d.'']), (''LISTING'', [Str ''Acme Co'', Str ''Beta Inc''])]
     = Inl TypeError"
proof -
  let ?ys = "[Num 1980, Num 1979, Num 1980, Num 1980]"
  let ?ls = "[Str ''Beta Inc'', Str ''Zed'', Str ''Acme Co'', Str ''Acme Co'']"
  let ?df = "[(''YEAR'', ?ys), (''LISTING'', ?ls)]"
  let ?bys = "[NaN, Str ''n.d.'']"
  let ?bls = "[Str ''Acme Co'', Str ''Beta Inc'']"
  let ?bdf = "[(''YEAR'', ?bys), (''LISTING'', ?bls)]"
  have y: "column ?df ''YEAR'' = Some ?ys" and l: "column ?df ''LISTING'' = Some ?ls"
    by (simp_all add: column_def)
  have r: "first_raise (map (to_numeric (\<lambda>c. Dropped)) ?ys) = None" by simp
  have y0: "column ?bdf ''YEAR'' = Some ?bys" and l0: "column ?bdf ''LISTING'' = Some ?bls"
    by (simp_all add: column_def)
  have r0: "first_raise (map (to_numeric (\<lambda>c. Dropped)) ?bys) = None" by simp
  have "year_listing_rows (\<lambda>c. Dropped) ?ys ?ls
      = [(1980, ''Beta Inc''), (1979, ''Zed''), (1980, ''Acme Co''), (1980, ''Acme Co'')]"
    by (simp add: year_listing_rows_def List.map_filter_simps listing_text_def strip_def
        is_space_def)
  then have n: "year_listing_rows (\<lambda>c. Dropped) ?ys ?ls \<noteq> []" by simp
  have s: "spec_year_aware (year_listing_rows (\<lambda>c. Dropped) ?ys ?ls)
      = [(Num 1979, ''Zed''), (Num 1980, ''Acme Co, Beta Inc'')]"
    by code_simp
  have t: "spec_year_text [(1980, ''Acme Co''), (1980, ''Acme Co''), (1980, ''Beta Inc'')] 1980
     = ''Acme Co, Beta Inc''"
    by code_simp
  have e: "year_listing_rows (\<lambda>c. Dropped) ?bys ?bls = []"
    by (simp add: year_listing_rows_def List.map_filter_simps)
  from format_year_listing_year_aware [OF y l r, where rows = "[]" and y = 0] n
  have "format_year_listing (\<lambda>c. Dropped) ?df = Inr (spec_year_aware (year_listing_rows (\<lambda>c. Dropped) ?ys ?ls))"
    by blast
  then have a: "format_year_listing (\<lambda>c. Dropped) ?df
      = Inr [(Num 1979, ''Zed''), (Num 1980, ''Acme Co, Beta Inc'')]"
    by (simp only: s)
  from format_year_listing_year_aware [OF y0 l0 r0, where rows = "[]" and y = 0] e
  have b: "format_year_listing (\<lambda>c. Dropped) ?bdf = Inl TypeError" by blast
  from a t e b show ?thesis by blast
qed

lemma map_filter_append:
  "List.map_filter f (xs @ ys) = List.map_filter f xs @ List.map_filter f ys"
  by (simp add: List.map_filter_def)

lemma year_listing_rows_insert:
  assumes "length ys1 = length ls1" and "to_numeric rd y = Dropped"
  shows "year_listing_rows rd (ys1 @ y # ys2) (ls1 @ l # ls2)
         = year_listing_rows rd (ys1 @ ys2) (ls1 @ ls2)"
  using assms by (simp add: year_listing_rows_def map_filter_append List.map_filter_simps)

lemma first_raise_insert:
  "to_numeric rd y = Dropped \<Longrightarrow>
   first_raise (map (to_numeric rd) (ys1 @ y # ys2)) = first_raise (map (to_numeric rd) (ys1 @ ys2))"
proof (induction ys1)
  case Nil
  then show ?case by simp
next
  case (Cons a ys1)
  then show ?case by (cases "to_numeric rd a") simp_all
qed

lemma year_listing_rows_sound:
  "(n, t) \<in> set (year_listing_rows rd ys ls) \<Longrightarrow>
   \<exists>(y, l) \<in> set (zip ys ls). to_numeric rd y = Reads n \<and> t = listing_text l \<and> t \<noteq> []"
  by (fastforce simp: year_listing_rows_def List.map_filter_def split: reading.splits)

lemma year_listing_rows_complete:
  "(y, l) \<in> set (zip ys ls) \<Longrightarrow> to_numeric rd y = Reads n \<Longrightarrow> listing_text l \<noteq> [] \<Longrightarrow>
   (n, listing_text l) \<in> set (year_listing_rows rd ys ls)"
  by (force simp: year_listing_rows_def List.map_filter_def image_iff split: reading.splits)

text \<open>
  Claim C8, amended: a row enters the year-aware aggregation exactly when its \<^verbatim>\<open>YEAR\<close> reads
  as a number and its listing text is not empty, and its year is then that finite integer,
  negative integers included. A row whose \<^verbatim>\<open>YEAR\<close> is missing, or a text that does not read
  as a number, is dropped: when a row remains, the table with such a row and the table
  without it give the same result, the aggregation of the remaining rows, and nothing is
  raised.
\<close>

theorem unreadable_years_dropped:
  assumes "length ys1 = length ls1"
    and "y = NaN \<or> y = PyNone \<or> (\<exists>s. y = Str s \<and> rd (Str s) = Dropped)"
    and "first_raise (map (to_numeric rd) (ys1 @ ys2)) = None"
    and "year_listing_rows rd (ys1 @ ys2) (ls1 @ ls2) \<noteq> []"
  shows "format_year_listing rd [(''YEAR'', ys1 @ y # ys2), (''LISTING'', ls1 @ l # ls2)]
           = Inr (spec_year_aware (year_listing_rows rd (ys1 @ ys2) (ls1 @ ls2)))
    \<and> format_year_listing rd [(''YEAR'', ys1 @ ys2), (''LISTING'', ls1 @ ls2)]
           = Inr (spec_year_aware (year_listing_rows rd (ys1 @ ys2) (ls1 @ ls2)))
    \<and> (\<forall>(n, t) \<in> set (year_listing_rows rd ys ls).
          \<exists>(c, d) \<in> set (zip ys ls). to_numeric rd c = Reads n \<and> t = listing_text d \<and> t \<noteq> [])
    \<and> (\<forall>(c, d) \<in> set (zip ys ls). \<forall>n. to_numeric rd c = Reads n \<and> listing_text d \<noteq> [] \<longrightarrow>
          (n, listing_text d) \<in> set (year_listing_rows rd ys ls))
    \<and> set (map fst (spec_year_aware rows)) = Num ` fst ` set rows"
proof -
  from assms(2) have d: "to_numeric rd y = Dropped" by auto
  let ?a = "[(''YEAR'', ys1 @ y # ys2), (''LISTING'', ls1 @ l # ls2)]"
  let ?b = "[(''YEAR'', ys1 @ ys2), (''LISTING'', ls1 @ ls2)]"
  have ca: "column ?a ''YEAR'' = Some (ys1 @ y # ys2)" "column ?a ''LISTING'' = Some (ls1 @ l # ls2)"
    and cb: "column ?b ''YEAR'' = Some (ys1 @ ys2)" "column ?b ''LISTING'' = Some (ls1 @ ls2)"
    by (simp_all add: column_def)
  have ra: "first_raise (map (to_numeric rd) (ys1 @ y # ys2)) = None"
    using first_raise_insert [OF d] assms(3) by simp
  have 1: "format_year_listing rd ?a
           = Inr (spec_year_aware (year_listing_rows rd (ys1 @ ys2) (ls1 @ ls2)))"
    using format_year_aware_eq [OF ca ra] year_listing_rows_insert [OF assms(1) d] assms(4)
    by simp
  have 2: "format_year_listing rd ?b
           = Inr (spec_year_aware (year_listing_rows rd (ys1 @ ys2) (ls1 @ ls2)))"
    using format_year_aware_eq [OF cb assms(3)] assms(4) by simp
  have 3: "\<forall>(n, t) \<in> set (year_listing_rows rd ys ls).
          \<exists>(c, d) \<in> set (zip ys ls). to_numeric rd c = Reads n \<and> t = listing_text d \<and> t \<noteq> []"
    using year_listing_rows_sound [of _ _ rd ys ls] by blast
  have 4: "\<forall>(c, d) \<in> set (zip ys ls). \<forall>n. to_numeric rd c = Reads n \<and> listing_text d \<noteq> [] \<longrightarrow>
          (n, listing_text d) \<in> set (year_listing_rows rd ys ls)"
    using year_listing_rows_complete [of _ _ ys ls rd] by blast
  have 5: "set (map fst (spec_year_aware rows)) = Num ` fst ` set rows"
    by (simp add: spec_year_aware_def comp_def image_image)
  from 1 2 3 4 5 show ?thesis by (intro conjI)
qed

theorem unreadable_years_dropped_witness:
  "format_year_listing (\<lambda>c. Dropped)
      [(''YEAR'', [Num 1980, Str ''n.d.'', Num 1981]),
       (''LISTING'', [Str ''Acme Co'', Str ''Gamma'', Str ''Acme Co''])]
     = Inr [(Num 1980, ''Acme Co''), (Num 1981, ''Acme Co'')]
   \<and> format_year_listing (\<lambda>c. Dropped)
      [(''YEAR'', [Num 1980, Num 1981]), (''LISTING'', [Str ''Acme Co'', Str ''Acme Co''])]
     = Inr [(Num 1980, ''Acme Co''), (Num 1981, ''Acme Co'')]"
proof -
  have n: "length [Num 1980] = length [Str ''Acme Co'']" by simp
  have u: "Str ''n.d.'' = NaN \<or> Str ''n.d.'' = PyNone
      \<or> (\<exists>s. Str ''n.d.'' = Str s \<and> (\<lambda>c. Dropped) (Str s) = Dropped)" by simp
  have r: "first_raise (map (to_numeric (\<lambda>c. Dropped)) ([Num 1980] @ [Num 1981])) = None" by simp
  have "year_listing_rows (\<lambda>c. Dropped) ([Num 1980] @ [Num 1981])
             ([Str ''Acme Co''] @ [Str ''Acme Co'']) = [(1980, ''Acme Co''), (1981, ''Acme Co'')]"
    by (simp add: year_listing_rows_def List.map_filter_simps listing_text_def strip_def
        is_space_def)
  then have e: "year_listing_rows (\<lambda>c. Dropped) ([Num 1980] @ [Num 1981])
             ([Str ''Acme Co''] @ [Str ''Acme Co'']) \<noteq> []"
    by simp
  have s: "spec_year_aware (year_listing_rows (\<lambda>c. Dropped) ([Num 1980] @ [Num 1981])
             ([Str ''Acme Co''] @ [Str ''Acme Co'']))
      = [(Num 1980, ''Acme Co''), (Num 1981, ''Acme Co'')]"
    by code_simp
  from unreadable_years_dropped [OF n u r e, where l = "Str ''Gamma''" and ys = "[]" and ls = "[]"
      and rows = "[]"]
  show ?thesis by (simp only: s) simp
qed

theorem negative_year_counterexample:
  "\<not> list_all (\<lambda>(y, l). 0 \<le> y) (year_listing_rows (\<lambda>c. Dropped) [Num (- 5)] [Str ''A''])
   \<and> format_year_listing (\<lambda>c. Dropped) [(''YEAR'', [Num (- 5)]), (''LISTING'', [Str ''A''])]
       = Inr [(Num (- 5), ''A'')]"
  by code_simp

section \<open>Properties of the report assembler\<close>

lemma column_select_rows:
  "column (select_rows keep df) name
     = map_option (\<lambda>c. map snd (filter fst (zip keep c))) (column df name)"
  by (induction df) (auto simp: column_def select_rows_def)

lemma select_none:
  "list_all (\<lambda>b. \<not> b) keep \<Longrightarrow> map snd (filter fst (zip keep c)) = []"
  by (induction keep arbitrary: c) (auto simp: zip_Cons1 split: list.splits)

lemma block_no_match:
  assumes "column df ''ADDRESS'' = Some vs" and "list_all (\<lambda>a. \<not> py_eq a (Str addr)) vs"
  shows "\<exists>block. address_block df addr = Inr block
           \<and> (\<forall>name. column block name = map_option (\<lambda>c. []) (column df name))"
proof -
  let ?keep = "map (\<lambda>a. py_eq a (Str addr)) vs"
  have "list_all (\<lambda>b. \<not> b) ?keep" using assms(2) by (simp add: list_all_iff)
  then have "column (select_rows ?keep df) name = map_option (\<lambda>c. []) (column df name)" for name
    by (simp add: column_select_rows select_none)
  with assms(1) show ?thesis by (simp add: address_block_def)
qed

lemma subject_loop_append:
  "subject_loop rd (xs @ ys) df table
     = (case subject_loop rd xs df table of Inl e \<Rightarrow> Inl e | Inr t \<Rightarrow> subject_loop rd ys df t)"
  by (induction xs arbitrary: table) (auto split: sum.splits)

lemma adjoining_loop_append:
  "adjoining_loop rd (xs @ ys) df dm table
     = (case adjoining_loop rd xs df dm table of Inl e \<Rightarrow> Inl e
        | Inr t \<Rightarrow> adjoining_loop rd ys df dm t)"
  by (induction xs arbitrary: table) (auto split: sum.splits)

lemma subject_loop_raises:
  "subject_rows rd df addr = Inl e \<Longrightarrow> \<exists>e'. subject_loop rd (pre @ addr # post) df table = Inl e'"
  by (cases "subject_loop rd pre df table") (simp_all add: subject_loop_append)

lemma adjoining_loop_raises:
  "adjoining_row rd df dm addr = Inl e \<Longrightarrow>
   \<exists>e'. adjoining_loop rd (pre @ addr # post) df dm table = Inl e'"
  by (cases "adjoining_loop rd pre df dm table") (simp_all add: adjoining_loop_append)

text \<open>
  Claim C6: a selected address for which no row enters the aggregation should get the
  single entry \<^verbatim>\<open>{address} - No results\<close> (the dash being the em dash) in the subject table
  and \<^verbatim>\<open>No results\<close> as the occupant cell of its row in the adjoining table. The code does
  so only for a table without a \<^verbatim>\<open>YEAR\<close> column. With the columns \<^verbatim>\<open>YEAR\<close> and \<^verbatim>\<open>LISTING\<close>,
  \<^verbatim>\<open>format_year_listing\<close> raises \<^verbatim>\<open>TypeError\<close> on the rows of such an address, whether none
  carries the address or all of them are dropped for a blank year, and both
  \<^verbatim>\<open>build_subject_report_docx\<close> and \<^verbatim>\<open>build_adjoining_report_docx\<close> raise instead of
  returning a table, whatever other addresses are selected with it.
\<close>

theorem no_results_raises:
  "(address_block df addr = Inr block \<and> column block ''YEAR'' = Some ys
      \<and> column block ''LISTING'' = Some ls \<and> first_raise (map (to_numeric rd) ys) = None
      \<and> year_listing_rows rd ys ls = [] \<longrightarrow>
      subject_rows rd df addr = Inl TypeError
      \<and> adjoining_row rd df direction_map addr = Inl TypeError
      \<and> (\<exists>e. build_subject_report_docx rd (pre @ addr # post) df = Inl e)
      \<and> (\<exists>e. build_adjoining_report_docx rd (pre @ addr # post) df direction_map = Inl e))
   \<and> (column df ''ADDRESS'' = Some vs \<and> list_all (\<lambda>a. \<not> py_eq a (Str addr)) vs
        \<and> column df ''YEAR'' = Some cy \<and> column df ''LISTING'' = Some cl \<longrightarrow>
      subject_rows rd df addr = Inl TypeError
      \<and> adjoining_row rd df direction_map addr = Inl TypeError)
   \<and> (column df ''ADDRESS'' = Some vs \<and> list_all (\<lambda>a. \<not> py_eq a (Str addr)) vs
        \<and> column df ''YEAR'' = None \<longrightarrow>
      subject_rows rd df addr = Inr [('''', addr @ '' '' @ em_dash @ '' No results'')]
      \<and> adjoining_row rd df direction_map addr
          = Inr (case direction_map addr of Some d \<Rightarrow> d | None \<Rightarrow> '''', addr, ''No results''))"
proof -
  have raise: "subject_rows rd df addr = Inl TypeError
      \<and> adjoining_row rd df direction_map addr = Inl TypeError"
    if b: "address_block df addr = Inr block" and y: "column block ''YEAR'' = Some ys"
      and l: "column block ''LISTING'' = Some ls"
      and r: "first_raise (map (to_numeric rd) ys) = None"
      and e: "year_listing_rows rd ys ls = []"
    for block ys ls
  proof -
    from format_year_aware_eq [OF y l r] e have "format_year_listing rd block = Inl TypeError"
      by simp
    with b show ?thesis by (simp add: subject_rows_def adjoining_row_def)
  qed
  have 1: "subject_rows rd df addr = Inl TypeError
      \<and> adjoining_row rd df direction_map addr = Inl TypeError
      \<and> (\<exists>e. build_subject_report_docx rd (pre @ addr # post) df = Inl e)
      \<and> (\<exists>e. build_adjoining_report_docx rd (pre @ addr # post) df direction_map = Inl e)"
    if "address_block df addr = Inr block \<and> column block ''YEAR'' = Some ys
      \<and> column block ''LISTING'' = Some ls \<and> first_raise (map (to_numeric rd) ys) = None
      \<and> year_listing_rows rd ys ls = []"
  proof -
    from that raise [of block ys ls] have s: "subject_rows rd df addr = Inl TypeError"
      and a: "adjoining_row rd df direction_map addr = Inl TypeError" by blast+
    from subject_loop_raises [OF s] adjoining_loop_raises [OF a] s a show ?thesis
      by (simp add: build_subject_report_docx_def build_adjoining_report_docx_def)
  qed
  have 2: "subject_rows rd df addr = Inl TypeError
      \<and> adjoining_row rd df direction_map addr = Inl TypeError"
    if h: "column df ''ADDRESS'' = Some vs \<and> list_all (\<lambda>a. \<not> py_eq a (Str addr)) vs
        \<and> column df ''YEAR'' = Some cy \<and> column df ''LISTING'' = Some cl"
  proof -
    from h block_no_match [of df vs addr] obtain block where
      b: "address_block df addr = Inr block"
      and c: "\<forall>name. column block name = map_option (\<lambda>c. []) (column df name)" by blast
    from c h have y: "column block ''YEAR'' = Some []" and l: "column block ''LISTING'' = Some []"
      by simp_all
    have r: "first_raise (map (to_numeric rd) []) = None" by simp
    have e: "year_listing_rows rd [] [] = []"
      by (simp add: year_listing_rows_def List.map_filter_simps)
    from raise [OF b y l r e] show ?thesis .
  qed
  have 3: "subject_rows rd df addr = Inr [('''', addr @ '' '' @ em_dash @ '' No results'')]
      \<and> adjoining_row rd df direction_map addr
          = Inr (case direction_map addr of Some d \<Rightarrow> d | None \<Rightarrow> '''', addr, ''No results'')"
    if h: "column df ''ADDRESS'' = Some vs \<and> list_all (\<lambda>a. \<not> py_eq a (Str addr)) vs
        \<and> column df ''YEAR'' = None"
  proof -
    from h block_no_match [of df vs addr] obtain block where
      b: "address_block df addr = Inr block"
      and c: "\<forall>name. column block name = map_option (\<lambda>c. []) (column df name)" by blast
    from c h have y: "column block ''YEAR'' = None" by simp
    have "format_year_listing rd block = Inr []"
    proof (cases "column df ''LISTING''")
      case None
      with c have "column block ''LISTING'' = None" by simp
      with y show ?thesis by (simp add: format_year_listing_def)
    next
      case (Some cl)
      with c have "column block ''LISTING'' = Some []" by simp
      with y show ?thesis by (simp add: format_year_listing_def)
    qed
    with b show ?thesis
      by (simp add: subject_rows_def adjoining_row_def compress_year_runs_def)
  qed
  from 1 2 3 show ?thesis by (intro conjI impI) blast+
qed

theorem no_results_raises_witness:
  "load_table CsvFile
      [(''Address'', [Str ''1 Main St'', Str ''2 Elm St'']), (''Year'', [NaN, Num 1970]),
       (''Listing'', [Str ''Acme Co'', Str ''Beta Inc''])]
     = ([(''ADDRESS'', [Str ''1 Main St'', Str ''2 Elm St'']), (''YEAR'', [NaN, Num 1970]),
         (''LISTING'', [Str ''Acme Co'', Str ''Beta Inc''])], [])
   \<and> all_addresses
        [(''ADDRESS'', [Str ''1 Main St'', Str ''2 Elm St'']), (''YEAR'', [NaN, Num 1970]),
         (''LISTING'', [Str ''Acme Co'', Str ''Beta Inc''])]
     = Inr [Str ''2 Elm St'', Str ''1 Main St'']
   \<and> address_block
        [(''ADDRESS'', [Str ''1 Main St'', Str ''2 Elm St'']), (''YEAR'', [NaN, Num 1970]),
         (''LISTING'', [Str ''Acme Co'', Str ''Beta Inc''])] ''1 Main St''
     = Inr [(''ADDRESS'', [Str ''1 Main St'']), (''YEAR'', [NaN]), (''LISTING'', [Str ''Acme Co''])]
   \<and> subject_rows (\<lambda>c. Dropped)
        [(''ADDRESS'', [Str ''1 Main St'', Str ''2 Elm St'']), (''YEAR'', [NaN, Num 1970]),
         (''LISTING'', [Str ''Acme Co'', Str ''Beta Inc''])] ''1 Main St''
     = Inl TypeError
   \<and> build_subject_report_docx (\<lambda>c. Dropped) [''2 Elm St'', ''1 Main St'']
        [(''ADDRESS'', [Str ''1 Main St'', Str ''2 Elm St'']), (''YEAR'', [NaN, Num 1970]),
         (''LISTING'', [Str ''Acme Co'', Str ''Beta Inc''])]
     = Inl TypeError
   \<and> build_adjoining_report_docx (\<lambda>c. Dropped) [''2 Elm St'', ''1 Main St'']
        [(''ADDRESS'', [Str ''1 Main St'', Str ''2 Elm St'']), (''YEAR'', [NaN, Num 1970]),
         (''LISTING'', [Str ''Acme Co'', Str ''Beta Inc''])] (\<lambda>a. None)
     = Inl TypeError"
proof -
  let ?df = "[(''ADDRESS'', [Str ''1 Main St'', Str ''2 Elm St'']), (''YEAR'', [NaN, Num 1970]),
         (''LISTING'', [Str ''Acme Co'', Str ''Beta Inc''])]"
  let ?block = "[(''ADDRESS'', [Str ''1 Main St'']), (''YEAR'', [NaN]), (''LISTING'', [Str ''Acme Co''])]"
  have t: "load_table CsvFile
      [(''Address'', [Str ''1 Main St'', Str ''2 Elm St'']), (''Year'', [NaN, Num 1970]),
       (''Listing'', [Str ''Acme Co'', Str ''Beta Inc''])] = (?df, [])"
    by code_simp
  have a: "all_addresses ?df = Inr [Str ''2 Elm St'', Str ''1 Main St'']" by code_simp
  have b: "address_block ?df ''1 Main St'' = Inr ?block" by code_simp
  have y: "column ?block ''YEAR'' = Some [NaN]" and l: "column ?block ''LISTING'' = Some [Str ''Acme Co'']"
    by (simp_all add: column_def)
  have r: "first_raise (map (to_numeric (\<lambda>c. Dropped)) [NaN]) = None" by simp
  have e: "year_listing_rows (\<lambda>c. Dropped) [NaN] [Str ''Acme Co''] = []"
    by (simp add: year_listing_rows_def List.map_filter_simps)
  from no_results_raises [where df = ?df and addr = "''1 Main St''" and block = ?block
      and ys = "[NaN]" and ls = "[Str ''Acme Co'']" and rd = "\<lambda>c. Dropped"
      and direction_map = "\<lambda>a. None" and pre = "[''2 Elm St'']" and post = "[]"]
    b y l r e
  have s: "subject_rows (\<lambda>c. Dropped) ?df ''1 Main St'' = Inl TypeError"
    by blast
  have bs: "build_subject_report_docx (\<lambda>c. Dropped) [''2 Elm St'', ''1 Main St''] ?df
     = Inl TypeError"
    by code_simp
  have ba: "build_adjoining_report_docx (\<lambda>c. Dropped) [''2 Elm St'', ''1 Main St''] ?df
        (\<lambda>a. None) = Inl TypeError"
    by code_simp
  from t a b s bs ba show ?thesis by (intro conjI)
qed

section \<open>Properties of the schema normaliser\<close>

lemma column_set_column: "column (set_column name vs df) name = Some vs"
proof (cases "name \<in> set (map fst df)")
  case True
  have "name \<in> set (map fst df) \<Longrightarrow>
        map_of (map (\<lambda>(n, c). if n = name then (n, vs) else (n, c)) df) name = Some vs"
    by (induction df) auto
  with True show ?thesis by (simp add: column_def set_column_def)
next
  case False
  then have "map_of df name = None" by (simp add: map_of_eq_None_iff)
  with False show ?thesis by (simp add: column_def set_column_def map_add_def)
qed

lemma column_set_column_other:
  "other \<noteq> name \<Longrightarrow> column (set_column name vs df) other = column df other"
proof -
  assume o: "other \<noteq> name"
  have "map_of (map (\<lambda>(n, c). if n = name then (n, vs) else (n, c)) df) other = map_of df other"
    using o by (induction df) auto
  with o show ?thesis
    by (auto simp: column_def set_column_def map_add_def split: option.splits)
qed

lemma cols_upper_None: "cols_upper df k = None \<longleftrightarrow> k \<notin> upper ` fst ` set df"
  by (force simp: cols_upper_def map_of_eq_None_iff image_iff)

lemma cols_upper_Some: "cols_upper df k = Some c \<Longrightarrow> c \<in> fst ` set df \<and> upper c = k"
  by (force simp: cols_upper_def dest!: map_of_SomeD)

lemma scan_first_match:
  "\<forall>q \<in> set pre. cols_upper df q = None \<Longrightarrow> cols_upper df p = Some c \<Longrightarrow>
   scan_address_patterns (pre @ p # post) df
     = (set_column ''ADDRESS'' (normalized_series df c) df,
        [check_mark @ '' Using '' @ c @ '' as ADDRESS column''])"
  by (induction pre) auto

lemma scan_no_match:
  "\<forall>q \<in> set ps. cols_upper df q = None \<Longrightarrow> scan_address_patterns ps df = (df, [])"
  by (induction ps) auto

lemma strip_strip: "strip (strip s) = strip s"
  by (rule strip_trimmed) (rule trimmed_strip)

text \<open>
  Claim C5, amended: the address column is resolved in a fixed precedence. (a) A column
  whose upper-case label is \<^verbatim>\<open>ADDRESS\<close> is normalised into \<^verbatim>\<open>ADDRESS\<close>, whatever other
  columns exist, and no notice of a combination is given. (b) Otherwise, with both
  \<^verbatim>\<open>ADDRESS1\<close> and \<^verbatim>\<open>ADDRESS2\<close>, the two trimmed cells of a row are joined with one space
  and normalised. (c) Otherwise \<^verbatim>\<open>ADDRESS1\<close> alone is normalised. (d) Otherwise the first
  label present of the list \<^verbatim>\<open>STREET ADDRESS\<close>, \<^verbatim>\<open>STREET_ADDRESS\<close>, \<^verbatim>\<open>PROPERTY ADDRESS\<close>,
  \<^verbatim>\<open>PROPERTY_ADDRESS\<close>, \<^verbatim>\<open>SITE ADDRESS\<close>, \<^verbatim>\<open>LOCATION\<close>, \<^verbatim>\<open>STREET\<close>, \<^verbatim>\<open>ADDR\<close> is
  normalised; with none of them the table is returned unchanged.
\<close>

theorem address_resolution_precedence:
  "(cols_upper df ''ADDRESS'' = Some c \<longrightarrow>
      find_and_combine_address_columns df
        = (set_column ''ADDRESS'' (normalized_series df c) df, [])
      \<and> column (fst (find_and_combine_address_columns df)) ''ADDRESS''
        = Some (normalized_series df c))
   \<and> (cols_upper df ''ADDRESS'' = None \<and> cols_upper df ''ADDRESS1'' = Some c1
        \<and> cols_upper df ''ADDRESS2'' = Some c2 \<longrightarrow>
      column (fst (find_and_combine_address_columns df)) ''ADDRESS''
        = Some (map (\<lambda>(a1, a2). Str (combine_addresses a1 a2))
                  (zip (col_values df c1) (col_values df c2)))
      \<and> snd (find_and_combine_address_columns df)
        = [check_mark @ '' Combined '' @ c1 @ '' and '' @ c2 @ '' into ADDRESS column''])
   \<and> combine_addresses (Str a) (Str b) = normalize_addr (Str (strip a @ '' '' @ strip b))
   \<and> (cols_upper df ''ADDRESS'' = None \<and> cols_upper df ''ADDRESS1'' = Some c1
        \<and> cols_upper df ''ADDRESS2'' = None \<longrightarrow>
      column (fst (find_and_combine_address_columns df)) ''ADDRESS''
        = Some (normalized_series df c1))
   \<and> (cols_upper df ''ADDRESS'' = None \<and> cols_upper df ''ADDRESS1'' = None
        \<and> address_patterns = pre @ p # post \<and> (\<forall>q \<in> set pre. cols_upper df q = None)
        \<and> cols_upper df p = Some c \<longrightarrow>
      column (fst (find_and_combine_address_columns df)) ''ADDRESS''
        = Some (normalized_series df c))
   \<and> (cols_upper df ''ADDRESS'' = None \<and> cols_upper df ''ADDRESS1'' = None
        \<and> (\<forall>q \<in> set address_patterns. cols_upper df q = None) \<longrightarrow>
      find_and_combine_address_columns df = (df, []))
   \<and> (cols_upper df k = None \<longleftrightarrow> k \<notin> upper ` fst ` set df)
   \<and> address_patterns
        = [''STREET ADDRESS'', ''STREET_ADDRESS'', ''PROPERTY ADDRESS'', ''PROPERTY_ADDRESS'',
           ''SITE ADDRESS'', ''LOCATION'', ''STREET'', ''ADDR'']"
proof -
  have a: "find_and_combine_address_columns df
        = (set_column ''ADDRESS'' (normalized_series df c) df, [])
      \<and> column (fst (find_and_combine_address_columns df)) ''ADDRESS''
        = Some (normalized_series df c)"
    if "cols_upper df ''ADDRESS'' = Some c"
    using that by (simp add: find_and_combine_address_columns_def column_set_column)
  have b: "column (fst (find_and_combine_address_columns df)) ''ADDRESS''
        = Some (map (\<lambda>(a1, a2). Str (combine_addresses a1 a2))
                  (zip (col_values df c1) (col_values df c2)))
      \<and> snd (find_and_combine_address_columns df)
        = [check_mark @ '' Combined '' @ c1 @ '' and '' @ c2 @ '' into ADDRESS column'']"
    if "cols_upper df ''ADDRESS'' = None \<and> cols_upper df ''ADDRESS1'' = Some c1
        \<and> cols_upper df ''ADDRESS2'' = Some c2"
    using that by (simp add: find_and_combine_address_columns_def column_set_column)
  have s: "combine_addresses (Str a) (Str b) = normalize_addr (Str (strip a @ '' '' @ strip b))"
    by (simp add: combine_addresses_def strip_strip)
  have c: "column (fst (find_and_combine_address_columns df)) ''ADDRESS''
        = Some (normalized_series df c1)"
    if "cols_upper df ''ADDRESS'' = None \<and> cols_upper df ''ADDRESS1'' = Some c1
        \<and> cols_upper df ''ADDRESS2'' = None"
    using that by (simp add: find_and_combine_address_columns_def column_set_column)
  have d: "column (fst (find_and_combine_address_columns df)) ''ADDRESS''
        = Some (normalized_series df c)"
    if "cols_upper df ''ADDRESS'' = None \<and> cols_upper df ''ADDRESS1'' = None
        \<and> address_patterns = pre @ p # post \<and> (\<forall>q \<in> set pre. cols_upper df q = None)
        \<and> cols_upper df p = Some c"
  proof -
    from that have "scan_address_patterns address_patterns df
        = (set_column ''ADDRESS'' (normalized_series df c) df,
           [check_mark @ '' Using '' @ c @ '' as ADDRESS column''])"
      using scan_first_match [of pre df p c post] by simp
    with that show ?thesis
      by (simp add: find_and_combine_address_columns_def column_set_column)
  qed
  have e: "find_and_combine_address_columns df = (df, [])"
    if "cols_upper df ''ADDRESS'' = None \<and> cols_upper df ''ADDRESS1'' = None
        \<and> (\<forall>q \<in> set address_patterns. cols_upper df q = None)"
    using that scan_no_match [of address_patterns df]
    by (simp add: find_and_combine_address_columns_def)
  from a b s c d e cols_upper_None [of df k] address_patterns_def show ?thesis
    by (intro conjI impI) blast+
qed

theorem address_resolution_precedence_witness:
  "cols_upper [(''ADDRESS1'', [Str ''1 Main'']), (''ADDRESS2'', [Str ''St'']),
               (''ADDRESS'', [Str ''9  Elm St''])] ''ADDRESS'' = Some ''ADDRESS''
   \<and> column (fst (find_and_combine_address_columns
        [(''ADDRESS1'', [Str ''1 Main'']), (''ADDRESS2'', [Str ''St'']),
         (''ADDRESS'', [Str ''9  Elm St''])])) ''ADDRESS'' = Some [Str ''9 Elm St'']
   \<and> cols_upper [(''Address1'', [Str ''1 Main '']), (''Address2'', [Str '' St''])] ''ADDRESS'' = None
   \<and> cols_upper [(''Address1'', [Str ''1 Main '']), (''Address2'', [Str '' St''])] ''ADDRESS1''
       = Some ''Address1''
   \<and> cols_upper [(''Address1'', [Str ''1 Main '']), (''Address2'', [Str '' St''])] ''ADDRESS2''
       = Some ''Address2''
   \<and> column (fst (find_and_combine_address_columns
        [(''Address1'', [Str ''1 Main '']), (''Address2'', [Str '' St''])])) ''ADDRESS''
       = Some [Str ''1 Main St'']"
proof -
  let ?d1 = "[(''ADDRESS1'', [Str ''1 Main'']), (''ADDRESS2'', [Str ''St'']),
              (''ADDRESS'', [Str ''9  Elm St''])]"
  let ?d2 = "[(''Address1'', [Str ''1 Main '']), (''Address2'', [Str '' St''])]"
  have u1: "cols_upper ?d1 ''ADDRESS'' = Some ''ADDRESS''" by code_simp
  have u2: "cols_upper ?d2 ''ADDRESS'' = None \<and> cols_upper ?d2 ''ADDRESS1'' = Some ''Address1''
        \<and> cols_upper ?d2 ''ADDRESS2'' = Some ''Address2''" by code_simp
  have n1: "normalized_series ?d1 ''ADDRESS'' = [Str ''9 Elm St'']" by code_simp
  have n2: "map (\<lambda>(a1, a2). Str (combine_addresses a1 a2))
              (zip (col_values ?d2 ''Address1'') (col_values ?d2 ''Address2'')) = [Str ''1 Main St'']"
    by code_simp
  from address_resolution_precedence [where df = ?d1 and c = "''ADDRESS''"] u1
  have "column (fst (find_and_combine_address_columns ?d1)) ''ADDRESS''
          = Some (normalized_series ?d1 ''ADDRESS'')"
    by blast
  then have r1: "column (fst (find_and_combine_address_columns ?d1)) ''ADDRESS'' = Some [Str ''9 Elm St'']"
    by (simp only: n1)
  from address_resolution_precedence [where df = ?d2 and ?c1.0 = "''Address1''" and ?c2.0 = "''Address2''"]
    u2
  have "column (fst (find_and_combine_address_columns ?d2)) ''ADDRESS''
          = Some (map (\<lambda>(a1, a2). Str (combine_addresses a1 a2))
              (zip (col_values ?d2 ''Address1'') (col_values ?d2 ''Address2'')))"
    by blast
  then have r2: "column (fst (find_and_combine_address_columns ?d2)) ''ADDRESS'' = Some [Str ''1 Main St'']"
    by (simp only: n2)
  from u1 u2 r1 r2 show ?thesis by blast
qed

theorem synonym_list_counterexample:
  "column (fst (find_and_combine_address_columns
      [(''PROPERTY ADDRESS'', [Str ''B'']), (''STREET_ADDRESS'', [Str ''A''])])) ''ADDRESS''
     = Some [Str ''A'']
   \<and> column (fst (scan_address_patterns spec_address_synonyms
      [(''PROPERTY ADDRESS'', [Str ''B'']), (''STREET_ADDRESS'', [Str ''A''])])) ''ADDRESS''
     = Some [Str ''B'']"
  by code_simp

lemma upper_char_idem: "upper_char (upper_char c) = upper_char c"
  by (simp add: upper_char_def)

lemma upper_idem: "upper (upper s) = upper s"
  by (simp add: upper_def upper_char_idem)

lemma ffill_from_snoc:
  "ffill_from prev (xs @ [c])
     = ffill_from prev xs
       @ [if notna c then c
          else (case (if filter notna xs = [] then prev else Some (last (filter notna xs))) of
                  None \<Rightarrow> c | Some v \<Rightarrow> v)]"
  by (induction xs arbitrary: prev) auto

lemma ffill_snoc:
  "ffill (xs @ [c])
     = ffill xs @ [if notna c \<or> filter notna xs = [] then c else last (filter notna xs)]"
  by (simp add: ffill_def ffill_from_snoc)

lemma labels_set_column:
  "name \<in> fst ` set df \<Longrightarrow> map fst (set_column name vs df) = map fst df"
  by (auto simp: set_column_def)

lemma labels_fill_address: "map fst (fill_address df) = map fst df"
proof (cases "column df ''ADDRESS''")
  case None
  then show ?thesis by (simp add: fill_address_def)
next
  case (Some vs)
  then have "''ADDRESS'' \<in> fst ` set df"
    by (auto simp: column_def dest: map_of_SomeD intro: rev_image_eqI)
  with Some show ?thesis by (simp add: fill_address_def labels_set_column)
qed

lemma labels_select_rows: "map fst (select_rows keep df) = map fst df"
  by (simp add: select_rows_def comp_def case_prod_unfold)

lemma labels_upper_labels: "map fst (upper_labels df) = map (\<lambda>c. upper (strip c)) (map fst df)"
  by (simp add: upper_labels_def comp_def case_prod_unfold)

lemma labels_read_input:
  "map fst (read_input kind parsed) = map (\<lambda>c. upper (strip c)) (map fst parsed)"
  by (cases kind)
     (simp_all add: Let_def labels_fill_address labels_select_rows labels_upper_labels
        split: option.splits)

lemma upper_again:
  "map (\<lambda>(c, vs). (upper c, vs)) (read_input kind parsed) = read_input kind parsed"
proof -
  have "\<forall>c \<in> set (map fst (read_input kind parsed)). upper c = c"
    unfolding labels_read_input by (auto simp: upper_idem)
  then have "\<forall>p \<in> set (read_input kind parsed). (case p of (c, vs) \<Rightarrow> (upper c, vs)) = p"
    by auto
  then show ?thesis by (simp add: map_idI)
qed

lemma column_fill_address:
  "column df ''ADDRESS'' = Some vs \<Longrightarrow>
   column (fill_address df) ''ADDRESS'' = Some (map (\<lambda>c. Str (normalize_addr c)) (ffill vs))"
  by (simp add: fill_address_def column_set_column)

lemma cols_upper_fixed:
  assumes "column df name = Some vs" and "\<forall>c \<in> fst ` set df. upper c = c"
  shows "cols_upper df name = Some name"
proof -
  from assms(1) have in_df: "name \<in> fst ` set df"
    by (auto simp: column_def dest: map_of_SomeD intro: rev_image_eqI)
  with assms(2) have "name \<in> upper ` fst ` set df" by force
  then have "cols_upper df name \<noteq> None" by (simp add: cols_upper_None)
  then obtain c where c: "cols_upper df name = Some c" by blast
  from cols_upper_Some [OF c] assms(2) have "c = name" by auto
  with c show ?thesis by simp
qed

lemma col_values_column: "column df name = Some vs \<Longrightarrow> col_values df name = vs"
  by (simp add: column_def col_values_def)

lemma load_table_address:
  assumes "column (read_input kind parsed) ''ADDRESS'' = Some (map (\<lambda>c. Str (normalize_addr c)) ws)"
  shows "column (fst (load_table kind parsed)) ''ADDRESS''
           = Some (map (\<lambda>c. Str (normalize_addr c)) ws)"
proof -
  let ?df = "read_input kind parsed"
  have "\<forall>c \<in> fst ` set ?df. upper c = c"
    using labels_read_input [of kind parsed] upper_idem
    by (metis (no_types, lifting) imageE list.set_map)
  from cols_upper_fixed [OF assms this] have u: "cols_upper ?df ''ADDRESS'' = Some ''ADDRESS''" .
  have "collapse_ws (strip (normalize_addr x)) = normalize_addr x" for x
    using normalize_addr_idem_cell [of x] by simp
  then have "normalized_series ?df ''ADDRESS'' = map (\<lambda>c. Str (normalize_addr c)) ws"
    by (simp add: normalized_series_def col_values_column [OF assms])
  with u show ?thesis
    by (simp add: load_table_def upper_again find_and_combine_address_columns_def
        column_set_column)
qed

text \<open>
  A workbook read from a detected header row that has a \<^verbatim>\<open>YEAR\<close> column loses its rows
  without \<^verbatim>\<open>YEAR\<close> before the fill (lines 262 to 268), so an address that stands in a row
  of its own is lost and the rows after it take the address before it; the same table read
  as a CSV file keeps the address.
\<close>

lemma header_row_fill_after_filter:
  "column (read_input ExcelHeaderRow
      [(''ADDRESS'', [Str ''1 Main St'', Str ''2 Elm St'', NaN]),
       (''YEAR'', [Num 1970, NaN, Num 1971]),
       (''LISTING'', [Str ''A'', NaN, Str ''B''])]) ''ADDRESS''
     = Some [Str ''1 Main St'', Str ''1 Main St'']
   \<and> column (read_input CsvFile
      [(''ADDRESS'', [Str ''1 Main St'', Str ''2 Elm St'', NaN]),
       (''YEAR'', [Num 1970, NaN, Num 1971]),
       (''LISTING'', [Str ''A'', NaN, Str ''B''])]) ''ADDRESS''
     = Some [Str ''1 Main St'', Str ''2 Elm St'', Str ''2 Elm St'']"
  by code_simp

text \<open>
  Claim C7, amended: when the ingested table has a column labelled \<^verbatim>\<open>ADDRESS\<close> (after its
  labels are trimmed and put in upper case), the cells of that column are forward-filled,
  a missing cell taking the last cell before it that is not missing, and only then
  normalised; this is the \<^verbatim>\<open>ADDRESS\<close> column of the table the script works on. An address
  resolved from any other column is not forward-filled. The statement covers a CSV file, a
  workbook without a detected header row, and a workbook with one that has no \<^verbatim>\<open>YEAR\<close>
  column.
\<close>

theorem address_forward_filled:
  assumes "column (upper_labels parsed) ''ADDRESS'' = Some vs"
    and "kind \<noteq> ExcelHeaderRow \<or> column (upper_labels parsed) ''YEAR'' = None"
  shows "column (read_input kind parsed) ''ADDRESS''
         = Some (map (\<lambda>c. Str (normalize_addr c)) (ffill vs))
    \<and> column (fst (load_table kind parsed)) ''ADDRESS''
         = Some (map (\<lambda>c. Str (normalize_addr c)) (ffill vs))
    \<and> length (ffill vs) = length vs
    \<and> ffill [] = []
    \<and> ffill (xs @ [c])
         = ffill xs @ [if notna c \<or> filter notna xs = [] then c else last (filter notna xs)]"
proof -
  have p: "column (read_input kind parsed) ''ADDRESS''
         = Some (map (\<lambda>c. Str (normalize_addr c)) (ffill vs))"
    using assms by (cases kind) (auto simp: column_fill_address)
  have "length (ffill_from prev vs) = length vs" for prev
    by (induction vs arbitrary: prev) auto
  then have l: "length (ffill vs) = length vs" by (simp add: ffill_def)
  have e: "ffill [] = []" by (simp add: ffill_def)
  from p l e load_table_address [of kind parsed "ffill vs"] ffill_snoc [of xs c]
  show ?thesis by (intro conjI) blast+
qed

theorem address_forward_filled_witness:
  "column (upper_labels [('' Address'', [Str ''1  Main St'', NaN, Str ''2 Elm St'', NaN]),
                         (''Listing'', [Str ''A'', Str ''B'', Str ''C'', Str ''D''])]) ''ADDRESS''
     = Some [Str ''1  Main St'', NaN, Str ''2 Elm St'', NaN]
   \<and> column (fst (load_table CsvFile
        [('' Address'', [Str ''1  Main St'', NaN, Str ''2 Elm St'', NaN]),
         (''Listing'', [Str ''A'', Str ''B'', Str ''C'', Str ''D''])])) ''ADDRESS''
     = Some [Str ''1 Main St'', Str ''1 Main St'', Str ''2 Elm St'', Str ''2 Elm St'']"
proof -
  let ?vs = "[Str ''1  Main St'', NaN, Str ''2 Elm St'', NaN]"
  let ?p = "[('' Address'', ?vs), (''Listing'', [Str ''A'', Str ''B'', Str ''C'', Str ''D''])]"
  have c: "column (upper_labels ?p) ''ADDRESS'' = Some ?vs" by code_simp
  have f: "map (\<lambda>c. Str (normalize_addr c)) (ffill ?vs)
      = [Str ''1 Main St'', Str ''1 Main St'', Str ''2 Elm St'', Str ''2 Elm St'']"
    by code_simp
  have k: "CsvFile \<noteq> ExcelHeaderRow \<or> column (upper_labels ?p) ''YEAR'' = None" by simp
  from address_forward_filled [OF c k]
  have "column (fst (load_table CsvFile ?p)) ''ADDRESS''
      = Some (map (\<lambda>c. Str (normalize_addr c)) (ffill ?vs))"
    by blast
  then have "column (fst (load_table CsvFile ?p)) ''ADDRESS''
      = Some [Str ''1 Main St'', Str ''1 Main St'', Str ''2 Elm St'', Str ''2 Elm St'']"
    by (simp only: f)
  with c show ?thesis by blast
qed

theorem no_forward_fill_counterexample:
  "column (fst (load_table CsvFile
      [(''ADDRESS1'', [Str ''1 Main St'', NaN]), (''LISTING'', [Str ''A'', Str ''B''])])) ''ADDRESS''
     = Some [Str ''1 Main St'', Str ''nan'']
   \<and> map (\<lambda>c. Str (normalize_addr c)) (ffill [Str ''1 Main St'', NaN])
     = [Str ''1 Main St'', Str ''1 Main St'']"
  by code_simp

section \<open>Properties of the address key parser\<close>




























lemma ws_normal_tl: "ws_normal (c # cs) \<Longrightarrow> ws_normal cs"
  by simp

























lemma keys_of_Inl:
  "a \<in> set xs \<Longrightarrow> parse_address_for_sort a = Inl e \<Longrightarrow> \<exists>e'. keys_of xs = Inl e'"
  by (induction xs) (auto split: sum.splits)











end
